theory Spec2Isabelle
  imports Complex_Main "HOL-Library.Product_Lexorder" "HOL-Library.Log_Nat" "HOL-Library.Multiset"
begin

text \<open>
  The merge-and-sample pipeline of \<^verbatim>\<open>DataProcessor\<close> (\<^verbatim>\<open>src/processor.py\<close>):
  \<^verbatim>\<open>analyze_files\<close>, \<^verbatim>\<open>process_chunk\<close>, \<^verbatim>\<open>stratified_sample\<close>, \<^verbatim>\<open>process_file\<close>,
  \<^verbatim>\<open>save_data\<close>, \<^verbatim>\<open>generate_summary\<close> and \<^verbatim>\<open>process_data\<close>. A data frame is the list of its
  rows. An exception is an \<open>Inl\<close> result. What the program reads from outside (the
  directory listing, the contents of files, the results of the worker processes, the
  draws of the random generator) is an argument of the functions that read it; what it
  logs and passes to its callbacks is returned as a list of events.
\<close>

section \<open>Data model\<close>

text \<open>
  A row of a main BACI file as \<^verbatim>\<open>process_file\<close> reads it (\<^verbatim>\<open>dtypes\<close>): the columns
  \<^verbatim>\<open>t\<close>, \<^verbatim>\<open>i\<close>, \<^verbatim>\<open>j\<close> are \<^verbatim>\<open>int64\<close> and so never null, \<^verbatim>\<open>k\<close> is an \<^verbatim>\<open>object\<close> column
  (a string or null), \<^verbatim>\<open>q\<close> and \<^verbatim>\<open>v\<close> are \<^verbatim>\<open>float64\<close>, where \<^verbatim>\<open>NaN\<close> is the null.
  \<open>None\<close> is the null of a column; \<open>col_x\<close> is the column named \<^verbatim>\<open>x\<close>.
\<close>

record trade_row =
  col_t :: int
  col_i :: int
  col_j :: int
  col_k :: "string option"
  col_q :: "rat option"
  col_v :: "rat option"

text \<open>
  The two reference tables as \<^verbatim>\<open>analyze_files\<close> leaves them in \<^verbatim>\<open>auxiliary_dfs\<close>:
  \<^verbatim>\<open>country_code\<close> cast to \<^verbatim>\<open>int\<close>, \<^verbatim>\<open>code\<close> cast to \<^verbatim>\<open>str\<close>.
\<close>

record country_entry =
  country_code :: int
  country_name :: "string option"
  country_iso2 :: "string option"
  country_iso3 :: "string option"

record product_entry =
  code :: string
  description :: "string option"

text \<open>
  A row after the three left merges of \<^verbatim>\<open>process_chunk\<close>: the trade columns, and for
  each merge which row of the reference table it matched, \<open>None\<close> when the key has no
  match (pandas then fills every column that merge adds with null). What the frame
  stores in the columns a merge adds is read off by the column functions below.
\<close>

record enriched_row =
  trade :: trade_row
  exporter :: "country_entry option"
  importer :: "country_entry option"
  product :: "product_entry option"

text \<open>
  The columns the merges add, under the names \<^verbatim>\<open>process_chunk\<close> gives them: the first
  merge adds \<^verbatim>\<open>country_code\<close> and the three columns renamed to \<^verbatim>\<open>exporter_*\<close>; the second
  adds \<^verbatim>\<open>country_code_importer\<close> (suffixed, as \<^verbatim>\<open>country_code\<close> is taken) and the three
  renamed to \<^verbatim>\<open>importer_*\<close>; the third adds \<^verbatim>\<open>code\<close> and \<^verbatim>\<open>description\<close>. The string
  columns are \<^verbatim>\<open>object\<close> columns and hold the reference value or null, row by row. The
  two code columns are numeric and depend on the whole frame; they follow the float
  operations below.
\<close>

definition exporter_name :: "enriched_row \<Rightarrow> string option" where
  "exporter_name r = Option.bind (exporter r) country_name"

definition exporter_iso2 :: "enriched_row \<Rightarrow> string option" where
  "exporter_iso2 r = Option.bind (exporter r) country_iso2"

definition exporter_iso3 :: "enriched_row \<Rightarrow> string option" where
  "exporter_iso3 r = Option.bind (exporter r) country_iso3"

definition importer_name :: "enriched_row \<Rightarrow> string option" where
  "importer_name r = Option.bind (importer r) country_name"

definition importer_iso2 :: "enriched_row \<Rightarrow> string option" where
  "importer_iso2 r = Option.bind (importer r) country_iso2"

definition importer_iso3 :: "enriched_row \<Rightarrow> string option" where
  "importer_iso3 r = Option.bind (importer r) country_iso3"

definition col_code :: "enriched_row \<Rightarrow> string option" where
  "col_code r = map_option code (product r)"

definition col_description :: "enriched_row \<Rightarrow> string option" where
  "col_description r = Option.bind (product r) description"

section \<open>Summary statistics\<close>

text \<open>\<^verbatim>\<open>Series.nunique()\<close>: the number of distinct values of a column.\<close>

definition nunique :: "'a list \<Rightarrow> nat" where
  "nunique xs = length (remdups xs)"

text \<open>
  The integer entries of \<^verbatim>\<open>summary_stats\<close> in \<^verbatim>\<open>generate_summary\<close>:
  \<^verbatim>\<open>unique_countries = df['i'].nunique() + df['j'].nunique()\<close> and
  \<^verbatim>\<open>unique_products = df['k'].nunique()\<close> (\<^verbatim>\<open>nunique\<close> leaves nulls out).
\<close>

definition unique_countries :: "enriched_row list \<Rightarrow> nat" where
  "unique_countries df =
     nunique (map (\<lambda>r. col_i (trade r)) df) + nunique (map (\<lambda>r. col_j (trade r)) df)"

definition unique_products :: "enriched_row list \<Rightarrow> nat" where
  "unique_products df =
     nunique (concat (map (\<lambda>r. case col_k (trade r) of None \<Rightarrow> [] | Some s \<Rightarrow> [s]) df))"

record summary_stats =
  unique_countries_value :: nat
  unique_products_value :: nat

text \<open>
  \<^verbatim>\<open>generate_summary\<close>, restricted to the two counts of \<^verbatim>\<open>summary_stats\<close>. The other
  entries of the summary (the total trade value, the two top-10 tables and the yearly
  series) are sums of \<^verbatim>\<open>float64\<close> values and are left out.
\<close>

definition generate_summary :: "enriched_row list \<Rightarrow> summary_stats" where
  "generate_summary df =
     \<lparr>unique_countries_value = unique_countries df, unique_products_value = unique_products df\<rparr>"

section \<open>Python arithmetic\<close>

text \<open>
  A Python \<^verbatim>\<open>float\<close> is an IEEE binary64 number. Its value is kept as a rational, and each
  float operation is the exact operation followed by rounding to the nearest number with
  a 53-bit significand, ties to the even significand. The exponent range is not
  bounded: the quantities below (a quotient of two file counts, times 100; a fraction
  times a group size) stay far from overflow and underflow.
\<close>

text \<open>The nearest integer, a tie going to the even one.\<close>

definition round_half_even :: "rat \<Rightarrow> int" where
  "round_half_even x =
     (let f = \<lfloor>x\<rfloor>; d = x - of_int f
      in if d < 1 / 2 then f else if 1 / 2 < d then f + 1 else if even f then f else f + 1)"

text \<open>Python's \<^verbatim>\<open>round(x)\<close> of a float rounds to the nearest integer in just this way.\<close>

definition py_round :: "rat \<Rightarrow> int" where
  "py_round x = round_half_even x"

text \<open>Python's \<^verbatim>\<open>int(x)\<close> of a float: truncation towards zero.\<close>

definition py_int :: "rat \<Rightarrow> int" where
  "py_int x = (if 0 \<le> x then \<lfloor>x\<rfloor> else \<lceil>x\<rceil>)"

text \<open>For \<open>0 < x\<close>, the exponent \<open>e\<close> with \<open>2 ^ e \<le> x < 2 ^ (e + 1)\<close>.\<close>

definition expo :: "rat \<Rightarrow> int" where
  "expo x = (if 1 \<le> x then bitlen \<lfloor>x\<rfloor> - 1 else - bitlen (\<lceil>1 / x\<rceil> - 1))"

definition binary64 :: "rat \<Rightarrow> rat" where
  "binary64 x =
     (if x = 0 then 0
      else let u = power_int 2 (expo \<bar>x\<bar> - 52)
           in sgn x * of_int (round_half_even (\<bar>x\<bar> / u)) * u)"

text \<open>\<^verbatim>\<open>a / b\<close> of two Python ints (correctly rounded) and \<^verbatim>\<open>x * y\<close> of two floats.\<close>

definition int_truediv :: "nat \<Rightarrow> nat \<Rightarrow> rat" where
  "int_truediv a b = binary64 (of_nat a / of_nat b)"

definition float_mul :: "rat \<Rightarrow> rat \<Rightarrow> rat" where
  "float_mul x y = binary64 (x * y)"

text \<open>
  An \<^verbatim>\<open>int64\<close> column that a left merge fills: it stays \<^verbatim>\<open>int64\<close> as long as every row
  has a value; as soon as one row has none, pandas makes the column \<^verbatim>\<open>float64\<close>, so that
  each value becomes the nearest float (a code above \<open>2 ^ 53\<close> may change) and the
  missing ones are \<^verbatim>\<open>NaN\<close>. Concatenating frames keeps this rule for the frame as a
  whole.
\<close>

definition int64_column :: "int option list \<Rightarrow> rat option list" where
  "int64_column xs =
     (if list_all (\<lambda>x. x \<noteq> None) xs then map (map_option of_int) xs
      else map (map_option (\<lambda>c. binary64 (of_int c))) xs)"

text \<open>The columns \<^verbatim>\<open>country_code\<close> and \<^verbatim>\<open>country_code_importer\<close> of a frame.\<close>

definition col_country_code :: "enriched_row list \<Rightarrow> rat option list" where
  "col_country_code df = int64_column (map (\<lambda>r. map_option country_code (exporter r)) df)"

definition country_code_importer :: "enriched_row list \<Rightarrow> rat option list" where
  "country_code_importer df = int64_column (map (\<lambda>r. map_option country_code (importer r)) df)"

text \<open>Python's \<^verbatim>\<open>p in s\<close> on strings.\<close>

fun str_contains :: "string \<Rightarrow> string \<Rightarrow> bool" where
  "str_contains p [] = (p = [])"
| "str_contains p (c # s) = (take (length p) (c # s) = p \<or> str_contains p s)"

section \<open>Errors, log records and callbacks\<close>

text \<open>The exceptions of a run, one constructor for each place that raises.\<close>

datatype error =
    FileNotFoundError
  | ReadError string
  | SampleError string
  | NoObjectsToConcatenate
  | NoDataProcessed
  | UnsupportedFileFormat string
  | WorkerError string

text \<open>
  \<open>FileNotFoundError\<close> is raised by \<^verbatim>\<open>analyze_files\<close> when a reference file is missing;
  \<open>ReadError\<close> stands for whatever \<^verbatim>\<open>pd.read_csv\<close> or \<^verbatim>\<open>astype\<close> raises, with its message;
  \<open>SampleError\<close> is the \<^verbatim>\<open>ValueError\<close> of \<^verbatim>\<open>DataFrame.sample\<close>; \<open>NoObjectsToConcatenate\<close>
  the \<^verbatim>\<open>ValueError\<close> of \<^verbatim>\<open>pd.concat\<close> on an empty list; \<open>NoDataProcessed\<close> is
  \<^verbatim>\<open>ValueError("No data was successfully processed")\<close>; \<open>UnsupportedFileFormat\<close> is the
  \<^verbatim>\<open>ValueError\<close> of \<^verbatim>\<open>save_data\<close>; \<open>WorkerError\<close> is any other exception that a future
  re-raises.

  The records of the module logger and the two callbacks of \<^verbatim>\<open>process_data\<close>, in the order
  the run emits them. Messages are kept structured instead of formatted.
\<close>

datatype log_record =
    FoundCsvFiles nat
  | IdentifiedMainFiles nat
  | ProcessingAuxiliaryFile string
  | FileAnalysisCompleted
  | ErrorInAnalyzeFiles error
  | ErrorProcessingFile nat error
  | ErrorInProcessData error

datatype callback_message =
    ProcessedFile nat nat
  | ErrorMessage error
  | OutputSavedTo string
  | SummarySaved
  | MetadataSaved

datatype event =
    Logger log_record
  | ProgressCallback int
  | LogCallback callback_message

section \<open>Configuration and environment\<close>

text \<open>The attributes \<^verbatim>\<open>__init__\<close> stores. There is no seed among them.\<close>

record config =
  input_dir :: string
  output_file :: string
  use_sample :: bool
  sample_frac :: rat
  n_workers :: nat
  file_format :: string
  chunk_size :: nat

record auxiliary_dfs =
  country_codes :: "country_entry list"
  product_codes :: "product_entry list"

record analysis =
  main_files :: "string list"
  aux_dfs :: auxiliary_dfs

text \<open>
  What a run reads from outside: the paths \<^verbatim>\<open>glob.glob\<close> returns, what reading each
  reference file gives (the table, or the message of the exception), and for each main
  file what \<^verbatim>\<open>future.result()\<close> gives for the task submitted for it (the result of
  \<^verbatim>\<open>process_file\<close> in a worker, or the exception re-raised in the coordinator).
\<close>

record environment =
  glob_csv :: "string list"
  read_country_codes :: "string \<Rightarrow> string + country_entry list"
  read_product_codes :: "string \<Rightarrow> string + product_entry list"
  future_result :: "string \<Rightarrow> error + enriched_row list"

section \<open>File analysis\<close>

text \<open>
  Python's \<^verbatim>\<open>not f\<close> for the result of \<^verbatim>\<open>next(..., None)\<close>: true for \<^verbatim>\<open>None\<close> and for the
  empty string.
\<close>

definition py_not :: "string option \<Rightarrow> bool" where
  "py_not f = (case f of None \<Rightarrow> True | Some s \<Rightarrow> s = [])"

definition analyze_files :: "environment \<Rightarrow> (error + analysis) \<times> log_record list" where
  "analyze_files env =
     (let csv_files = glob_csv env;
          mains = filter (str_contains ''BACI_HS'') csv_files;
          logs = [FoundCsvFiles (length csv_files), IdentifiedMainFiles (length mains)];
          cc = find (str_contains ''country_codes'') csv_files;
          pc = find (str_contains ''product_codes'') csv_files
      in if py_not cc \<or> py_not pc
         then (Inl FileNotFoundError, logs @ [ErrorInAnalyzeFiles FileNotFoundError])
         else
           (case read_country_codes env (the cc) of
              Inl msg \<Rightarrow>
                (Inl (ReadError msg),
                 logs @ [ProcessingAuxiliaryFile ''country_codes'', ErrorInAnalyzeFiles (ReadError msg)])
            | Inr countries \<Rightarrow>
                (case read_product_codes env (the pc) of
                   Inl msg \<Rightarrow>
                     (Inl (ReadError msg),
                      logs @ [ProcessingAuxiliaryFile ''country_codes'',
                              ProcessingAuxiliaryFile ''product_codes'',
                              ErrorInAnalyzeFiles (ReadError msg)])
                 | Inr products \<Rightarrow>
                     (Inr \<lparr>main_files = mains,
                           aux_dfs = \<lparr>country_codes = countries, product_codes = products\<rparr>\<rparr>,
                      logs @ [ProcessingAuxiliaryFile ''country_codes'',
                              ProcessingAuxiliaryFile ''product_codes'',
                              FileAnalysisCompleted]))))"

section \<open>The join step\<close>

text \<open>
  \<^verbatim>\<open>pd.merge(left, right, left_on=..., right_on=..., how='left')\<close>: the rows of \<open>left\<close> in
  their order, each once for every row of \<open>right\<close> with an equal key, and once with the
  right side null when there is none.
\<close>

definition merge_left ::
  "('l \<Rightarrow> 'key) \<Rightarrow> ('r \<Rightarrow> 'key) \<Rightarrow> 'l list \<Rightarrow> 'r list \<Rightarrow> ('l \<times> 'r option) list" where
  "merge_left left_on right_on left right =
     concat (map (\<lambda>l. case filter (\<lambda>r. right_on r = left_on l) right of
                         [] \<Rightarrow> [(l, None)]
                       | ms \<Rightarrow> map (\<lambda>m. (l, Some m)) ms) left)"

text \<open>\<^verbatim>\<open>astype(str)\<close> on an \<^verbatim>\<open>object\<close> column: a string stays, the null becomes \<^verbatim>\<open>'nan'\<close>.\<close>

definition astype_str :: "string option \<Rightarrow> string" where
  "astype_str c = (case c of None \<Rightarrow> ''nan'' | Some s \<Rightarrow> s)"

definition process_chunk :: "auxiliary_dfs \<Rightarrow> trade_row list \<Rightarrow> enriched_row list" where
  "process_chunk aux chunk =
     (let m1 = merge_left col_i country_code chunk (country_codes aux);
          m2 = merge_left (\<lambda>(r, e). col_j r) country_code m1 (country_codes aux);
          m2k = map (\<lambda>((r, e), im). ((r\<lparr>col_k := Some (astype_str (col_k r))\<rparr>, e), im)) m2;
          m3 = merge_left (\<lambda>((r, e), im). col_k r) (\<lambda>p. Some (code p)) m2k (product_codes aux)
      in map (\<lambda>(((r, e), im), p). \<lparr>trade = r, exporter = e, importer = im, product = p\<rparr>) m3)"

section \<open>Stratified sampling\<close>

text \<open>
  \<^verbatim>\<open>x.sample(frac=self.sample_frac)\<close> passes no \<^verbatim>\<open>random_state\<close>, so pandas draws from
  numpy's process-global generator. The generator is a state \<open>g\<close> with one operation,
  \<^verbatim>\<open>choice(obj_len, size=size, replace=False)\<close>: the positions drawn and the next state.
\<close>

type_synonym 'g choice = "'g \<Rightarrow> nat \<Rightarrow> nat \<Rightarrow> nat list \<times> 'g"

text \<open>
  What numpy documents for a draw without replacement: \<open>size\<close> distinct positions below
  \<open>obj_len\<close>.
\<close>

definition draws_without_replacement :: "'g choice \<Rightarrow> bool" where
  "draws_without_replacement choice \<longleftrightarrow>
     (\<forall>g obj_len size. size \<le> obj_len \<longrightarrow>
        length (fst (choice g obj_len size)) = size \<and>
        distinct (fst (choice g obj_len size)) \<and>
        (\<forall>p \<in> set (fst (choice g obj_len size)). p < obj_len))"

text \<open>
  The size pandas takes for \<^verbatim>\<open>sample(frac=frac)\<close> on \<^verbatim>\<open>obj_len\<close> rows,
  \<^verbatim>\<open>round(frac * obj_len)\<close>: the length becomes a float, the product is a float product,
  and \<^verbatim>\<open>round\<close> sends a tie to the even integer.
\<close>

definition sample_size :: "rat \<Rightarrow> nat \<Rightarrow> int" where
  "sample_size fraction obj_len = py_round (float_mul fraction (binary64 (of_nat obj_len)))"

text \<open>
  \<^verbatim>\<open>DataFrame.sample(frac=frac)\<close>: pandas rejects \<^verbatim>\<open>frac > 1\<close> (no replacement) and
  \<^verbatim>\<open>frac < 0\<close>, takes \<^verbatim>\<open>size = round(frac * obj_len)\<close>, and returns the rows at the drawn
  positions; numpy rejects a size above the population.
\<close>

definition df_sample :: "'g choice \<Rightarrow> rat \<Rightarrow> 'g \<Rightarrow> 'a list \<Rightarrow> error + 'a list \<times> 'g" where
  "df_sample choice fraction g x =
     (if 1 < fraction then Inl (SampleError ''frac > 1 without replacement'')
      else if fraction < 0 then Inl (SampleError ''negative number of rows requested'')
      else let size = sample_size fraction (length x)
           in if int (length x) < size then Inl (SampleError ''larger sample than population'')
              else let (ps, g') = choice g (length x) (nat size)
                   in Inr (map (\<lambda>p. x ! p) ps, g'))"

definition group_key :: "enriched_row \<Rightarrow> int \<times> int \<times> int" where
  "group_key r = (col_t (trade r), col_i (trade r), col_j (trade r))"

text \<open>
  \<^verbatim>\<open>df.groupby(['t', 'i', 'j'], group_keys=False)\<close>: one group for each key that occurs, in
  sorted key order, holding the rows with that key in their order.
\<close>

definition groupby :: "enriched_row list \<Rightarrow> enriched_row list list" where
  "groupby df = map (\<lambda>key. filter (\<lambda>r. group_key r = key) df) (sort (remdups (map group_key df)))"

text \<open>
  \<^verbatim>\<open>.apply(lambda x: x.sample(frac=self.sample_frac) if len(x) > 0 else x)\<close>: the groups are
  sampled one after the other from the same generator and the samples are put together.
  An exception in one group ends the call. (The order of the rows in the result is an
  internal matter of pandas; nothing below depends on it.)
\<close>

fun groupby_apply :: "'g choice \<Rightarrow> rat \<Rightarrow> 'g \<Rightarrow> 'a list list \<Rightarrow> error + 'a list \<times> 'g" where
  "groupby_apply choice fraction g [] = Inr ([], g)"
| "groupby_apply choice fraction g (x # xs) =
     (case (if 0 < length x then df_sample choice fraction g x else Inr (x, g)) of
        Inl e \<Rightarrow> Inl e
      | Inr (s, g') \<Rightarrow>
          (case groupby_apply choice fraction g' xs of
             Inl e \<Rightarrow> Inl e
           | Inr (rest, g'') \<Rightarrow> Inr (s @ rest, g'')))"

definition stratified_sample ::
  "config \<Rightarrow> 'g choice \<Rightarrow> 'g \<Rightarrow> enriched_row list \<Rightarrow> error + enriched_row list \<times> 'g" where
  "stratified_sample self choice g df =
     (if use_sample self then groupby_apply choice (sample_frac self) g (groupby df)
      else Inr (df, g))"

section \<open>Processing one file\<close>

text \<open>\<^verbatim>\<open>chunk.fillna({col: 0 for col in ['q', 'v']})\<close>.\<close>

definition fillna_qv :: "trade_row list \<Rightarrow> trade_row list" where
  "fillna_qv chunk =
     map (\<lambda>r. r\<lparr>col_q := Some (case col_q r of None \<Rightarrow> 0 | Some x \<Rightarrow> x),
                col_v := Some (case col_v r of None \<Rightarrow> 0 | Some x \<Rightarrow> x)\<rparr>) chunk"

text \<open>\<^verbatim>\<open>pd.concat(dfs, ignore_index=True)\<close>, which raises on an empty list.\<close>

definition pd_concat :: "'a list list \<Rightarrow> error + 'a list" where
  "pd_concat dfs = (if dfs = [] then Inl NoObjectsToConcatenate else Inr (concat dfs))"

text \<open>
  The loop of \<^verbatim>\<open>process_file\<close> over the chunk iterator of \<^verbatim>\<open>pd.read_csv\<close>. The iterator is
  given as the list of what it yields: a chunk, or the message of the exception raised
  at that point (by \<^verbatim>\<open>read_csv\<close> itself when it is the first).
\<close>

fun process_chunks ::
  "config \<Rightarrow> auxiliary_dfs \<Rightarrow> 'g choice \<Rightarrow> 'g \<Rightarrow> (string + trade_row list) list \<Rightarrow>
   enriched_row list list \<Rightarrow> error + enriched_row list" where
  "process_chunks self aux choice g [] processed_chunks = pd_concat processed_chunks"
| "process_chunks self aux choice g (Inl msg # chunks) processed_chunks = Inl (ReadError msg)"
| "process_chunks self aux choice g (Inr chunk # chunks) processed_chunks =
     (let filled = fillna_qv chunk;
          processed_chunk = process_chunk aux filled
      in case stratified_sample self choice g processed_chunk of
           Inl e \<Rightarrow> Inl e
         | Inr (sampled_chunk, g') \<Rightarrow>
             process_chunks self aux choice g' chunks (processed_chunks @ [sampled_chunk]))"

definition process_file ::
  "config \<Rightarrow> auxiliary_dfs \<Rightarrow> 'g choice \<Rightarrow> 'g \<Rightarrow> (string + trade_row list) list \<Rightarrow>
   error + enriched_row list" where
  "process_file self aux choice g chunks = process_chunks self aux choice g chunks []"

section \<open>The run\<close>

text \<open>
  \<^verbatim>\<open>save_data\<close>: the writers are opaque; the result is the extension of the file written.
\<close>

definition save_data :: "string \<Rightarrow> error + string" where
  "save_data fmt =
     (if fmt = ''parquet'' then Inr ''.parquet''
      else if fmt = ''feather'' then Inr ''.feather''
      else if fmt = ''csv'' then Inr ''.csv''
      else if fmt = ''hdf5'' then Inr ''.h5''
      else Inl (UnsupportedFileFormat fmt))"

text \<open>The dictionary written to \<^verbatim>\<open>_metadata.json\<close>, with its keys.\<close>

record metadata =
  input_directory :: string
  md_output_file :: string
  md_file_format :: string
  md_use_sample :: bool
  sample_fraction :: "rat option"
  number_of_workers :: nat
  md_chunk_size :: nat
  total_rows_processed :: nat
  total_files_processed :: nat

text \<open>What a run that returns has written: the data, the summary and the metadata.\<close>

record run_output =
  final_data :: "enriched_row list"
  summary :: summary_stats
  data_extension :: string
  run_metadata :: metadata

text \<open>
  \<^verbatim>\<open>progress = int((i + 1) / len(self.main_files) * 100)\<close> for the future at index \<open>i\<close>.
  The loop computes it only for a future, so the number \<open>n\<close> of main files is positive
  there.
\<close>

definition progress :: "nat \<Rightarrow> nat \<Rightarrow> int" where
  "progress i n = py_int (float_mul (int_truediv (i + 1) n) 100)"

text \<open>
  The loop over \<^verbatim>\<open>enumerate(futures)\<close>: \<open>pcb\<close> and \<open>lcb\<close> say whether a progress and a log
  callback were passed, \<open>n\<close> is \<^verbatim>\<open>len(self.main_files)\<close>, \<open>i\<close> the index of the next future;
  the state is \<^verbatim>\<open>processed_data\<close> and the events so far. A future is given by what
  \<^verbatim>\<open>future.result()\<close> does: return the result or raise. The callbacks are taken to
  return.
\<close>

fun collect_results ::
  "bool \<Rightarrow> bool \<Rightarrow> nat \<Rightarrow> nat \<Rightarrow> (error + enriched_row list) list \<Rightarrow>
   enriched_row list list \<times> event list \<Rightarrow> enriched_row list list \<times> event list" where
  "collect_results pcb lcb n i [] state = state"
| "collect_results pcb lcb n i (future # futures) (processed_data, events) =
     collect_results pcb lcb n (i + 1) futures
       (case future of
          Inr result \<Rightarrow>
            (processed_data @ [result],
             events @ (if pcb then [ProgressCallback (progress i n)] else [])
                    @ (if lcb then [LogCallback (ProcessedFile (i + 1) n)] else []))
        | Inl e \<Rightarrow> (processed_data, events @ [Logger (ErrorProcessingFile i e)]))"

text \<open>The handler of \<^verbatim>\<open>process_data\<close>: log, tell the log callback, re-raise.\<close>

definition fail :: "bool \<Rightarrow> error \<Rightarrow> event list \<Rightarrow> (error + run_output) \<times> event list" where
  "fail lcb e events =
     (Inl e, events @ [Logger (ErrorInProcessData e)]
                    @ (if lcb then [LogCallback (ErrorMessage e)] else []))"

definition process_data ::
  "config \<Rightarrow> environment \<Rightarrow> bool \<Rightarrow> bool \<Rightarrow> (error + run_output) \<times> event list" where
  "process_data self env pcb lcb =
     (case analyze_files env of
        (Inl e, logs) \<Rightarrow> fail lcb e (map Logger logs)
      | (Inr a, logs) \<Rightarrow>
          (let futures = map (future_result env) (main_files a);
               (processed_data, events) =
                 collect_results pcb lcb (length (main_files a)) 0 futures ([], map Logger logs)
           in if processed_data = [] then fail lcb NoDataProcessed events
              else
                (let final = concat processed_data;
                     summ = generate_summary final
                 in case save_data (file_format self) of
                      Inl e \<Rightarrow> fail lcb e events
                    | Inr ext \<Rightarrow>
                        (Inr \<lparr>final_data = final, summary = summ, data_extension = ext,
                              run_metadata =
                                \<lparr>input_directory = input_dir self,
                                 md_output_file = output_file self,
                                 md_file_format = file_format self,
                                 md_use_sample = use_sample self,
                                 sample_fraction =
                                   (if use_sample self then Some (sample_frac self) else None),
                                 number_of_workers = n_workers self,
                                 md_chunk_size = chunk_size self,
                                 total_rows_processed = length final,
                                 total_files_processed = length (main_files a)\<rparr>\<rparr>,
                         events @ (if lcb then [LogCallback (OutputSavedTo (output_file self)),
                                                LogCallback SummarySaved,
                                                LogCallback MetadataSaved]
                                   else [])))))"

section \<open>Reading a run\<close>

text \<open>The results of the futures that returned, in the order of the futures.\<close>

fun successful :: "(error + 'a) list \<Rightarrow> 'a list" where
  "successful [] = []"
| "successful (Inr r # futures) = r # successful futures"
| "successful (Inl e # futures) = successful futures"

text \<open>
  What the future at index \<open>i\<close> adds to the events: its callbacks when it returned, the
  logger's error record when it raised.
\<close>

definition file_events :: "bool \<Rightarrow> bool \<Rightarrow> nat \<Rightarrow> nat \<times> (error + enriched_row list) \<Rightarrow> event list" where
  "file_events pcb lcb n = (\<lambda>(i, future).
     case future of
       Inr result \<Rightarrow> (if pcb then [ProgressCallback (progress i n)] else [])
                     @ (if lcb then [LogCallback (ProcessedFile (i + 1) n)] else [])
     | Inl e \<Rightarrow> [Logger (ErrorProcessingFile i e)])"

text \<open>The percentages delivered to the progress callback, in order.\<close>

definition progress_values :: "event list \<Rightarrow> int list" where
  "progress_values events =
     concat (map (\<lambda>ev. case ev of ProgressCallback p \<Rightarrow> [p] | _ \<Rightarrow> []) events)"

text \<open>The pairs \<open>(k, n)\<close> of the messages "Processed file k of n" given to the log callback.\<close>

definition processed_file_logs :: "event list \<Rightarrow> (nat \<times> nat) list" where
  "processed_file_logs events =
     concat (map (\<lambda>ev. case ev of LogCallback (ProcessedFile k n) \<Rightarrow> [(k, n)] | _ \<Rightarrow> []) events)"

text \<open>The pairs \<open>(i, e)\<close> of the logger's records "Error processing file i: e".\<close>

definition file_error_logs :: "event list \<Rightarrow> (nat \<times> error) list" where
  "file_error_logs events =
     concat (map (\<lambda>ev. case ev of Logger (ErrorProcessingFile i e) \<Rightarrow> [(i, e)] | _ \<Rightarrow> []) events)"

section \<open>Example inputs\<close>

definition example_row :: "int \<Rightarrow> int \<Rightarrow> int \<Rightarrow> string \<Rightarrow> rat \<Rightarrow> enriched_row" where
  "example_row t i j k v =
     \<lparr>trade = \<lparr>col_t = t, col_i = i, col_j = j, col_k = Some k, col_q = Some 1, col_v = Some v\<rparr>,
      exporter = None, importer = None, product = None\<rparr>"

text \<open>Two countries, 1 and 2, each exporting to the other.\<close>

definition two_way_trade :: "enriched_row list" where
  "two_way_trade = [example_row 2020 1 2 ''010121'' 10, example_row 2020 2 1 ''010121'' 20]"

text \<open>A run over two main files, of which the second cannot be read.\<close>

definition example_countries :: "country_entry list" where
  "example_countries =
     [\<lparr>country_code = 4, country_name = Some ''Afghanistan'', country_iso2 = Some ''AF'', country_iso3 = Some ''AFG''\<rparr>,
      \<lparr>country_code = 8, country_name = Some ''Albania'', country_iso2 = Some ''AL'', country_iso3 = Some ''ALB''\<rparr>]"

definition example_products :: "product_entry list" where
  "example_products = [\<lparr>code = ''010121'', description = Some ''Horses: live, pure-bred breeding animals''\<rparr>]"

definition example_env :: environment where
  "example_env =
     \<lparr>glob_csv = [''in/BACI_HS17_Y2020.csv'', ''in/BACI_HS17_Y2021.csv'',
                  ''in/country_codes_V1.csv'', ''in/product_codes_HS17.csv''],
      read_country_codes = (\<lambda>f. Inr example_countries),
      read_product_codes = (\<lambda>f. Inr example_products),
      future_result = (\<lambda>f. if f = ''in/BACI_HS17_Y2020.csv'' then Inr two_way_trade
                             else Inl (ReadError ''Error tokenizing data''))\<rparr>"

definition all_fail_env :: environment where
  "all_fail_env = example_env\<lparr>future_result := (\<lambda>f. Inl (ReadError ''Error tokenizing data''))\<rparr>"

definition example_analysis :: analysis where
  "example_analysis =
     \<lparr>main_files = [''in/BACI_HS17_Y2020.csv'', ''in/BACI_HS17_Y2021.csv''],
      aux_dfs = \<lparr>country_codes = example_countries, product_codes = example_products\<rparr>\<rparr>"

text \<open>
  Reference tables and a raw chunk of two rows: the second row has an importer code and a
  product code (null) that the tables do not hold, and each row has one null amount.
\<close>

definition example_aux :: auxiliary_dfs where
  "example_aux = \<lparr>country_codes = example_countries, product_codes = example_products\<rparr>"

definition example_chunk :: "trade_row list" where
  "example_chunk =
     [\<lparr>col_t = 2020, col_i = 4, col_j = 8, col_k = Some ''010121'', col_q = Some 3, col_v = None\<rparr>,
      \<lparr>col_t = 2020, col_i = 4, col_j = 999, col_k = None, col_q = None, col_v = Some 7\<rparr>]"

text \<open>
  Two generators that draw without replacement: one takes the first positions, the other
  the last ones; the state counts the draws.
\<close>

definition take_first :: "nat choice" where
  "take_first g obj_len sz = ([0..<sz], g + 1)"

definition take_last :: "nat choice" where
  "take_last g obj_len sz = ([obj_len - sz..<obj_len], g + 1)"

text \<open>Sampling one half; a group of ten rows and a group of one row.\<close>

definition sampling_config :: config where
  "sampling_config =
     \<lparr>input_dir = ''in'', output_file = ''out/merged.parquet'', use_sample = True,
      sample_frac = 1 / 2, n_workers = 4, file_format = ''parquet'', chunk_size = 100000\<rparr>"

definition same_group_pair :: "enriched_row list" where
  "same_group_pair = [example_row 2020 4 8 ''010121'' 10, example_row 2020 4 8 ''010121'' 20]"

definition ten_and_one :: "enriched_row list" where
  "ten_and_one =
     map (\<lambda>n. example_row 2020 4 8 ''010121'' (of_nat n)) [0..<10] @ [example_row 2021 4 8 ''010121'' 5]"

definition example_config :: "string \<Rightarrow> config" where
  "example_config fmt =
     \<lparr>input_dir = ''in'', output_file = ''out/merged.csv'', use_sample = False,
      sample_frac = 1 / 100, n_workers = 4, file_format = fmt, chunk_size = 100000\<rparr>"

section \<open>Facts about the float operations\<close>

lemma round_half_even_le: "x \<le> of_int m \<Longrightarrow> round_half_even x \<le> m"
proof -
  assume a: "x \<le> of_int m"
  have f: "\<lfloor>x\<rfloor> \<le> m" using a by (simp add: floor_le_iff) 
  show ?thesis
  proof (cases "x = of_int \<lfloor>x\<rfloor>")
    case True
    then have "x - of_int \<lfloor>x\<rfloor> = 0" by simp
    then have "round_half_even x = \<lfloor>x\<rfloor>" by (simp add: round_half_even_def Let_def)
    with f show ?thesis by simp
  next
    case False
    then have "of_int \<lfloor>x\<rfloor> < x" using of_int_floor_le[of x] by linarith
    with a have "of_int \<lfloor>x\<rfloor> < (of_int m :: rat)" by linarith
    then have "\<lfloor>x\<rfloor> < m" by simp
    moreover have "round_half_even x \<le> \<lfloor>x\<rfloor> + 1" by (simp add: round_half_even_def Let_def)
    ultimately show ?thesis by linarith
  qed
qed

lemma round_half_even_ge: "of_int m \<le> x \<Longrightarrow> m \<le> round_half_even x"
proof -
  assume a: "of_int m \<le> x"
  then have "m \<le> \<lfloor>x\<rfloor>" by (simp add: le_floor_iff)
  moreover have "\<lfloor>x\<rfloor> \<le> round_half_even x" by (simp add: round_half_even_def Let_def)
  ultimately show ?thesis by linarith
qed

lemma round_half_even_of_int: "round_half_even (of_int m) = m"
  using round_half_even_le[of "of_int m" m] round_half_even_ge[of m "of_int m"] by simp

lemma expo_le: "0 < x \<Longrightarrow> power_int 2 (expo x) \<le> x"
proof (cases "1 \<le> x")
  case True
  assume "0 < x"
  let ?a = "\<lfloor>x\<rfloor>"
  have a: "0 < ?a" using True by simp
  from bitlen_bounds[OF a] have "2 ^ nat (bitlen ?a - 1) \<le> ?a" by simp
  then have "(of_int (2 ^ nat (bitlen ?a - 1)) :: rat) \<le> of_int ?a" by (simp only: of_int_le_iff)
  also have "\<dots> \<le> x" by simp
  finally have "(2::rat) ^ nat (bitlen ?a - 1) \<le> x" by simp
  moreover have "0 \<le> bitlen ?a - 1" using a by (simp add: bitlen_alt_def)
  ultimately show ?thesis using True by (simp add: expo_def power_int_def)
next
  case False
  assume pos: "0 < x"
  let ?c = "\<lceil>1 / x\<rceil>"
  let ?m = "bitlen (?c - 1)"
  have "1 < 1 / x" using False pos by simp
  then have c: "0 < ?c - 1" by (simp add: less_ceiling_iff)
  from bitlen_bounds[OF c] have "?c - 1 < 2 ^ nat ?m" by simp
  then have "?c \<le> 2 ^ nat ?m" by simp
  then have "1 / x \<le> of_int (2 ^ nat ?m)" by (simp only: ceiling_le_iff)
  then have "1 / x \<le> 2 ^ nat ?m" by simp
  then have "1 \<le> 2 ^ nat ?m * x" using pos by (simp add: field_simps)
  then have "inverse 2 ^ nat ?m \<le> x" by (simp add: power_inverse field_simps)
  moreover have "0 < ?m" using c by (simp add: bitlen_alt_def)
  ultimately show ?thesis using False by (simp add: expo_def power_int_def)
qed


lemma binary64_grid:
  assumes "0 < x" "x < power_int 2 (s + 53)"
  shows "\<exists>N. of_int M * power_int 2 s / power_int 2 (expo x - 52) = (of_int N :: rat)"
proof -
  have "power_int (2::rat) (expo x) < power_int 2 (s + 53)"
    using expo_le[OF assms(1)] assms(2) by linarith
  then have "expo x < s + 53"
    using power_int_increasing[of "s + 53" "expo x" "2::rat"] by (cases "expo x < s + 53") auto
  then have k: "0 \<le> s - (expo x - 52)" by simp
  have "power_int (2::rat) s / power_int 2 (expo x - 52) = power_int 2 (s - (expo x - 52))"
    by (simp add: power_int_diff)
  also have "\<dots> = 2 ^ nat (s - (expo x - 52))" using k by (simp add: power_int_def)
  finally have q: "power_int (2::rat) s / power_int 2 (expo x - 52) = 2 ^ nat (s - (expo x - 52))" .
  have "of_int M * power_int 2 s / power_int 2 (expo x - 52)
      = of_int M * (power_int (2::rat) s / power_int 2 (expo x - 52))" by simp
  also have "\<dots> = (of_int (M * 2 ^ nat (s - (expo x - 52))) :: rat)" by (simp only: q) simp
  finally show ?thesis by blast
qed

lemma binary64_upper:
  assumes "0 < x" "x \<le> of_int M * power_int 2 s" "x < power_int 2 (s + 53)"
  shows "binary64 x \<le> of_int M * power_int 2 s"
proof -
  let ?u = "power_int (2::rat) (expo x - 52)"
  have u: "0 < ?u" by simp
  obtain N where N: "of_int M * power_int 2 s / ?u = (of_int N :: rat)"
    using binary64_grid[OF assms(1,3)] by blast
  have "x / ?u \<le> of_int M * power_int 2 s / ?u"
    using assms(2) u by (simp add: divide_right_mono)
  then have "round_half_even (x / ?u) \<le> N" using N by (simp add: round_half_even_le)
  then have "(of_int (round_half_even (x / ?u)) :: rat) \<le> of_int N" by (simp only: of_int_le_iff)
  then have "of_int (round_half_even (x / ?u)) * ?u \<le> of_int N * ?u"
    using u by (simp add: mult_right_mono)
  also have "of_int N * ?u = of_int M * power_int 2 s" using N u by (simp add: field_simps)
  finally show ?thesis using assms(1) by (simp add: binary64_def Let_def)
qed

lemma binary64_lower:
  assumes "0 < x" "of_int M * power_int 2 s \<le> x" "x < power_int 2 (s + 53)"
  shows "of_int M * power_int 2 s \<le> binary64 x"
proof -
  let ?u = "power_int (2::rat) (expo x - 52)"
  have u: "0 < ?u" by simp
  obtain N where N: "of_int M * power_int 2 s / ?u = (of_int N :: rat)"
    using binary64_grid[OF assms(1,3)] by blast
  have "of_int M * power_int 2 s / ?u \<le> x / ?u"
    using assms(2) u by (simp add: divide_right_mono)
  then have "N \<le> round_half_even (x / ?u)" using N by (simp add: round_half_even_ge)
  then have "(of_int N :: rat) \<le> of_int (round_half_even (x / ?u))" by (simp only: of_int_le_iff)
  then have "of_int N * ?u \<le> of_int (round_half_even (x / ?u)) * ?u"
    using u by (simp add: mult_right_mono)
  moreover have "of_int N * ?u = of_int M * power_int 2 s" using N u by (simp add: field_simps)
  ultimately show ?thesis using assms(1) by (simp add: binary64_def Let_def)
qed

lemma binary64_exact:
  assumes "0 < x" "x = of_int M * power_int 2 s" "x < power_int 2 (s + 53)"
  shows "binary64 x = x"
  using binary64_upper[of x M s] binary64_lower[of x M s] assms by simp

lemma binary64_nonneg: "0 \<le> x \<Longrightarrow> 0 \<le> binary64 x"
proof (cases "x = 0")
  case True then show ?thesis by (simp add: binary64_def)
next
  case False
  assume "0 \<le> x"
  with False have pos: "0 < x" by simp
  have "0 \<le> round_half_even (x / power_int 2 (expo x - 52))"
    using pos by (intro round_half_even_ge) simp
  then show ?thesis using pos by (simp add: binary64_def Let_def)
qed

lemma py_round_le: "x \<le> of_int m \<Longrightarrow> py_round x \<le> m"
  by (simp add: py_round_def round_half_even_le)

lemma py_round_ge: "of_int m \<le> x \<Longrightarrow> m \<le> py_round x"
  by (simp add: py_round_def round_half_even_ge)

lemma binary64_of_nat: "n < 2 ^ 53 \<Longrightarrow> binary64 (of_nat n) = of_nat n"
proof (cases "n = 0")
  case True then show ?thesis by (simp add: binary64_def)
next
  case False
  assume "n < 2 ^ 53"
  then have "(of_nat n :: rat) < of_nat (2 ^ 53)" by (simp only: of_nat_less_iff)
  then have "(of_nat n :: rat) < 2 ^ 53" by (simp only: of_nat_power of_nat_numeral)
  then have b: "(of_nat n :: rat) < power_int 2 (0 + 53)" by (simp only: power_int_numeral add_0)
  have p: "(0::rat) < of_nat n" using False by simp
  have e: "(of_nat n :: rat) = of_int (int n) * power_int 2 0" by simp
  show ?thesis by (rule binary64_exact[OF p e b])
qed

lemma binary64_one: "binary64 1 = 1"
  using binary64_of_nat[of 1] by simp

lemma binary64_hundred: "binary64 100 = 100"
  using binary64_of_nat[of 100] by simp

lemma progress_last: "0 < n \<Longrightarrow> progress (n - 1) n = 100"
  by (simp add: progress_def int_truediv_def float_mul_def binary64_one binary64_hundred py_int_def)

lemma pw52: "power_int (2::rat) (- 52) = 1 / 4503599627370496"
  by (simp add: power_int_def inverse_eq_divide power_one_over)

lemma pw46: "power_int (2::rat) (- 46) = 1 / 70368744177664"
  by (simp add: power_int_def inverse_eq_divide power_one_over)

lemma quotient_below_one:
  assumes "i + 1 < n" "n \<le> 4503599627370496"
  shows "(of_nat (i + 1) :: rat) / of_nat n \<le> 1 - 1 / 4503599627370496"
proof -
  have n: "(0::rat) < of_nat n" using assms(1) by simp
  have "(of_nat n :: rat) \<le> of_nat 4503599627370496" using assms(2) by (simp only: of_nat_le_iff)
  then have n2: "(of_nat n :: rat) \<le> 4503599627370496" by simp
  have "i + 2 \<le> n" using assms(1) by simp
  then have "(of_nat (i + 2) :: rat) \<le> of_nat n" by (simp only: of_nat_le_iff)
  then have "(of_nat (i + 1) :: rat) \<le> of_nat n - 1" by simp
  then have "(of_nat (i + 1) :: rat) / of_nat n \<le> (of_nat n - 1) / of_nat n"
    using n by (simp add: divide_right_mono)
  also have "\<dots> = 1 - 1 / of_nat n" using n by (simp add: field_simps)
  also have "\<dots> \<le> 1 - 1 / 4503599627370496"
    using n n2 by (simp add: field_simps)
  finally show ?thesis .
qed

lemma progress_below_100:
  assumes "i + 1 < n" "n \<le> 4503599627370496"
  shows "progress i n < 100"
proof -
  let ?q = "(of_nat (i + 1) :: rat) / of_nat n"
  have qpos: "0 < ?q" using assms(1) by simp
  have q1: "?q \<le> of_int 4503599627370495 * power_int 2 (- 52)"
    using quotient_below_one[OF assms] by (simp add: pw52)
  have "?q < 2" using quotient_below_one[OF assms] by linarith
  then have q2: "?q < power_int 2 (- 52 + 53)" by simp
  have b1: "binary64 ?q \<le> 1 - 1 / 4503599627370496"
    using binary64_upper[OF qpos q1 q2] by (simp add: pw52)
  have b0: "0 \<le> binary64 ?q" using qpos by (simp add: binary64_nonneg)
  let ?p = "binary64 ?q * 100"
  have p0: "0 \<le> ?p" using b0 by simp
  have p1: "?p \<le> of_int 7036874417766399 * power_int 2 (- 46)"
    using b1 by (simp add: pw46)
  have "?p < 128" using b1 by linarith
  then have p2: "?p < power_int 2 (- 46 + 53)" by simp
  have "binary64 ?p < 100"
  proof (cases "?p = 0")
    case True
    then show ?thesis by (simp add: binary64_def)
  next
    case False
    with p0 have "0 < ?p" by simp
    from binary64_upper[OF this p1 p2] show ?thesis by (simp add: pw46)
  qed
  moreover have "0 \<le> binary64 ?p" using p0 by (rule binary64_nonneg)
  ultimately show ?thesis
    by (simp add: progress_def int_truediv_def float_mul_def py_int_def floor_less_iff)
qed

lemma progress_100_iff:
  assumes "i < n" "n \<le> 4503599627370496"
  shows "progress i n = 100 \<longleftrightarrow> i + 1 = n"
proof
  assume "progress i n = 100"
  then show "i + 1 = n" using progress_below_100[of i n] assms by (cases "i + 1 < n") auto
next
  assume "i + 1 = n"
  then show "progress i n = 100" using progress_last[of n] by auto
qed

section \<open>Facts about the run\<close>

lemma collect_results_eq:
  "collect_results pcb lcb n i futs (pd, evs) =
     (pd @ successful futs, evs @ concat (map (file_events pcb lcb n) (enumerate i futs)))"
proof (induction futs arbitrary: i pd evs)
  case Nil
  then show ?case by simp
next
  case (Cons fut futs)
  show ?case
  proof (cases fut)
    case (Inl e)
    then show ?thesis using Cons.IH[of "Suc i"] by (simp add: file_events_def)
  next
    case (Inr r)
    then show ?thesis using Cons.IH[of "Suc i"] by (simp add: file_events_def)
  qed
qed

lemma successful_empty_iff: "successful futs = [] \<longleftrightarrow> (\<forall>fut \<in> set futs. isl fut)"
  by (induction futs rule: successful.induct) auto

lemma process_data_eq:
  assumes "analyze_files env = (Inr a, logs)"
  shows "process_data self env pcb lcb =
     (let futs = map (future_result env) (main_files a);
          evs = map Logger logs @ concat (map (file_events pcb lcb (length (main_files a))) (enumerate 0 futs))
      in if successful futs = [] then fail lcb NoDataProcessed evs
         else case save_data (file_format self) of
                Inl e \<Rightarrow> fail lcb e evs
              | Inr ext \<Rightarrow>
                  (Inr \<lparr>final_data = concat (successful futs),
                        summary = generate_summary (concat (successful futs)),
                        data_extension = ext,
                        run_metadata =
                          \<lparr>input_directory = input_dir self,
                           md_output_file = output_file self,
                           md_file_format = file_format self,
                           md_use_sample = use_sample self,
                           sample_fraction = (if use_sample self then Some (sample_frac self) else None),
                           number_of_workers = n_workers self,
                           md_chunk_size = chunk_size self,
                           total_rows_processed = length (concat (successful futs)),
                           total_files_processed = length (main_files a)\<rparr>\<rparr>,
                   evs @ (if lcb then [LogCallback (OutputSavedTo (output_file self)),
                                       LogCallback SummarySaved, LogCallback MetadataSaved]
                          else [])))"
  using assms by (simp add: process_data_def collect_results_eq Let_def split: sum.splits)

lemma analyze_files_error:
  "fst (analyze_files env) = Inl e \<Longrightarrow> e = FileNotFoundError \<or> (\<exists>msg. e = ReadError msg)"
  by (auto simp: analyze_files_def Let_def split: if_splits sum.splits)

lemma progress_values_append: "progress_values (xs @ ys) = progress_values xs @ progress_values ys"
  by (simp add: progress_values_def)

lemma processed_file_logs_append:
  "processed_file_logs (xs @ ys) = processed_file_logs xs @ processed_file_logs ys"
  by (simp add: processed_file_logs_def)

lemma file_error_logs_append:
  "file_error_logs (xs @ ys) = file_error_logs xs @ file_error_logs ys"
  by (simp add: file_error_logs_def)

lemma projections_Logger:
  "progress_values (map Logger logs) = []"
  "processed_file_logs (map Logger logs) = []"
  by (induction logs) (simp_all add: progress_values_def processed_file_logs_def)

lemma file_error_logs_analysis:
  "fst (analyze_files env) = Inr a \<Longrightarrow> file_error_logs (map Logger (snd (analyze_files env))) = []"
  by (auto simp: analyze_files_def Let_def file_error_logs_def split: if_splits sum.splits)

lemma progress_values_loop:
  "progress_values (concat (map (file_events pcb lcb n) (enumerate i futs))) =
     (if pcb then map (\<lambda>(k, fut). progress k n) (filter (\<lambda>(k, fut). \<not> isl fut) (enumerate i futs))
      else [])"
  by (induction futs arbitrary: i)
     (auto simp: progress_values_def file_events_def split: sum.splits)

lemma processed_file_logs_loop:
  "processed_file_logs (concat (map (file_events pcb lcb n) (enumerate i futs))) =
     (if lcb then map (\<lambda>(k, fut). (k + 1, n)) (filter (\<lambda>(k, fut). \<not> isl fut) (enumerate i futs))
      else [])"
  by (induction futs arbitrary: i)
     (auto simp: processed_file_logs_def file_events_def split: sum.splits)

lemma file_error_logs_loop:
  "file_error_logs (concat (map (file_events pcb lcb n) (enumerate i futs))) =
     map (\<lambda>(k, fut). (k, projl fut)) (filter (\<lambda>(k, fut). isl fut) (enumerate i futs))"
  by (induction futs arbitrary: i)
     (auto simp: file_error_logs_def file_events_def split: sum.splits)

text \<open>The events of a run whose analysis succeeded: analysis logs, the loop, a closing part without per-file records.\<close>

lemma process_data_events:
  assumes "analyze_files env = (Inr a, logs)"
  shows "\<exists>closing. snd (process_data self env pcb lcb) =
           map Logger logs
           @ concat (map (file_events pcb lcb (length (main_files a)))
                         (enumerate 0 (map (future_result env) (main_files a))))
           @ closing
         \<and> progress_values closing = [] \<and> processed_file_logs closing = []
         \<and> file_error_logs closing = []"
  by (simp add: process_data_eq[OF assms] Let_def fail_def progress_values_def
      processed_file_logs_def file_error_logs_def split: sum.splits)

lemma run_progress_values:
  assumes "fst (analyze_files env) = Inr a"
  shows "progress_values (snd (process_data self env pcb lcb)) =
     (if pcb then map (\<lambda>(k, fut). progress k (length (main_files a)))
                     (filter (\<lambda>(k, fut). \<not> isl fut) (enumerate 0 (map (future_result env) (main_files a))))
      else [])"
proof -
  obtain logs where "analyze_files env = (Inr a, logs)" using assms by (cases "analyze_files env") auto
  from process_data_events[OF this, of self pcb lcb] show ?thesis
    by (auto simp: progress_values_append projections_Logger progress_values_loop)
qed

lemma run_processed_file_logs:
  assumes "fst (analyze_files env) = Inr a"
  shows "processed_file_logs (snd (process_data self env pcb lcb)) =
     (if lcb then map (\<lambda>(k, fut). (k + 1, length (main_files a)))
                     (filter (\<lambda>(k, fut). \<not> isl fut) (enumerate 0 (map (future_result env) (main_files a))))
      else [])"
proof -
  obtain logs where "analyze_files env = (Inr a, logs)" using assms by (cases "analyze_files env") auto
  from process_data_events[OF this, of self pcb lcb] show ?thesis
    by (auto simp: processed_file_logs_append projections_Logger processed_file_logs_loop)
qed

lemma run_file_error_logs:
  assumes "fst (analyze_files env) = Inr a"
  shows "file_error_logs (snd (process_data self env pcb lcb)) =
     map (\<lambda>(k, fut). (k, projl fut))
         (filter (\<lambda>(k, fut). isl fut) (enumerate 0 (map (future_result env) (main_files a))))"
proof -
  obtain logs where l: "analyze_files env = (Inr a, logs)" using assms by (cases "analyze_files env") auto
  have "file_error_logs (map Logger logs) = []" using file_error_logs_analysis[OF assms] l by simp
  with process_data_events[OF l, of self pcb lcb] show ?thesis
    by (auto simp: file_error_logs_append file_error_logs_loop)
qed

lemma analyze_files_example_env:
  "analyze_files example_env = (Inr example_analysis,
     [FoundCsvFiles 4, IdentifiedMainFiles 2, ProcessingAuxiliaryFile ''country_codes'',
      ProcessingAuxiliaryFile ''product_codes'', FileAnalysisCompleted])"
  by (simp add: analyze_files_def example_env_def py_not_def example_analysis_def)

lemma analyze_files_all_fail_env:
  "analyze_files all_fail_env = (Inr example_analysis,
     [FoundCsvFiles 4, IdentifiedMainFiles 2, ProcessingAuxiliaryFile ''country_codes'',
      ProcessingAuxiliaryFile ''product_codes'', FileAnalysisCompleted])"
  by (simp add: analyze_files_def all_fail_env_def example_env_def py_not_def example_analysis_def)

lemma example_main_files:
  "main_files example_analysis = [''in/BACI_HS17_Y2020.csv'', ''in/BACI_HS17_Y2021.csv'']"
  by (simp add: example_analysis_def)

lemma example_future_results:
  "future_result example_env ''in/BACI_HS17_Y2020.csv'' = Inr two_way_trade"
  "future_result example_env ''in/BACI_HS17_Y2021.csv'' = Inl (ReadError ''Error tokenizing data'')"
  "future_result all_fail_env f = Inl (ReadError ''Error tokenizing data'')"
  by (simp_all add: example_env_def all_fail_env_def)

lemma example_progress: "progress 0 (Suc (Suc 0)) = 50"
proof -
  have "progress 0 2 = 50" by code_simp
  then show ?thesis by (simp only: numeral_2_eq_2)
qed

lemmas example_run =
  example_main_files example_future_results example_progress example_config_def save_data_def
  fail_def file_events_def enumerate_eq_zip Let_def


lemma save_data_supported:
  "fmt \<in> {''parquet'', ''feather'', ''csv'', ''hdf5''} \<Longrightarrow> \<exists>ext. save_data fmt = Inr ext"
  by (auto simp: save_data_def)

lemma save_data_unsupported:
  "fmt \<notin> {''parquet'', ''feather'', ''csv'', ''hdf5''} \<Longrightarrow> save_data fmt = Inl (UnsupportedFileFormat fmt)"
  by (simp add: save_data_def)

lemma all_fail_iff:
  "successful (map f xs) = [] \<longleftrightarrow> (\<forall>x \<in> set xs. isl (f x))"
  by (simp add: successful_empty_iff)


lemma sorted_wrt_enumerate_filter:
  "sorted_wrt (<) (map fst (filter P (enumerate i xs)))"
proof -
  have "sorted_wrt (<) (map fst (enumerate i xs))" by (simp add: map_fst_enumerate)
  then show ?thesis
    by (metis sorted_wrt_filter sorted_wrt_map filter_map comp_def) 
qed


lemma length_successful:
  "length (successful futs) = length (filter (\<lambda>(k, fut). \<not> isl fut) (enumerate i futs))"
  by (induction futs arbitrary: i rule: successful.induct) auto

lemma last_progress_100_iff:
  assumes "n = length futs" "n \<le> 2 ^ 52"
  defines "ps \<equiv> map (\<lambda>(k, fut). progress k n) (filter (\<lambda>(k, fut). \<not> isl fut) (enumerate 0 futs))"
  shows "(ps \<noteq> [] \<and> last ps = 100) \<longleftrightarrow> (futs \<noteq> [] \<and> \<not> isl (last futs))"
proof
  let ?L = "filter (\<lambda>(k, fut). \<not> isl fut) (enumerate 0 futs)"
  have n: "n \<le> 4503599627370496" using assms(2) by simp
  assume h: "ps \<noteq> [] \<and> last ps = 100"
  then have ne: "?L \<noteq> []" by (auto simp: ps_def)
  obtain k fut where kf: "last ?L = (k, fut)" by (cases "last ?L")
  have "(k, fut) \<in> set ?L" using last_in_set[OF ne] kf by simp
  then have k: "k < n" "futs ! k = fut" "\<not> isl fut"
    using assms(1) by (auto simp: in_set_enumerate_eq)
  have "last ps = progress k n" using ne kf by (simp add: ps_def last_map)
  with h have "progress k n = 100" by simp
  then have "k + 1 = n" using progress_100_iff[OF k(1) n] by simp
  then have k1: "k = length futs - 1" and ne': "futs \<noteq> []" using assms(1) by auto
  have "last futs = futs ! k" using ne' k1 by (simp add: last_conv_nth)
  then show "futs \<noteq> [] \<and> \<not> isl (last futs)" using k ne' by simp
next
  assume h: "futs \<noteq> [] \<and> \<not> isl (last futs)"
  then have f: "futs = butlast futs @ [last futs]" by simp
  have "enumerate 0 futs = enumerate 0 (butlast futs) @ [(length (butlast futs), last futs)]"
    by (subst f) (simp add: enumerate_append_eq)
  then have "filter (\<lambda>(k, fut). \<not> isl fut) (enumerate 0 futs) =
      filter (\<lambda>(k, fut). \<not> isl fut) (enumerate 0 (butlast futs)) @ [(n - 1, last futs)]"
    using h assms(1) by simp
  then have "ps \<noteq> []" "last ps = progress (n - 1) n" by (simp_all add: ps_def)
  moreover have "0 < n" using h assms(1) by simp
  ultimately show "ps \<noteq> [] \<and> last ps = 100" using progress_last by simp
qed


section \<open>Facts about the join\<close>

lemma filter_unique_key:
  "distinct (map f ys) \<Longrightarrow>
   filter (\<lambda>y. f y = a) ys = (case find (\<lambda>y. f y = a) ys of None \<Rightarrow> [] | Some y \<Rightarrow> [y])"
proof (induction ys)
  case Nil
  then show ?case by simp
next
  case (Cons y ys)
  show ?case
  proof (cases "f y = a")
    case True
    then have "a \<notin> f ` set ys" using Cons.prems by auto
    then have "filter (\<lambda>y. f y = a) ys = []" by (auto simp: filter_empty_conv)
    with True show ?thesis by simp
  next
    case False
    then show ?thesis using Cons by simp
  qed
qed

lemma merge_left_unique:
  assumes "distinct (map right_on right)"
  shows "merge_left left_on right_on left right =
           map (\<lambda>l. (l, find (\<lambda>r. right_on r = left_on l) right)) left"
proof -
  have "(case filter (\<lambda>r. right_on r = left_on l) right of
           [] \<Rightarrow> [(l, None)] | ms \<Rightarrow> map (\<lambda>m. (l, Some m)) ms)
        = [(l, find (\<lambda>r. right_on r = left_on l) right)]" for l
    by (simp add: filter_unique_key[OF assms] split: option.splits)
  then show ?thesis by (simp add: merge_left_def)
qed

lemma process_chunk_unique:
  assumes "distinct (map country_code (country_codes aux))"
    and "distinct (map code (product_codes aux))"
  shows "process_chunk aux chunk =
     map (\<lambda>r. \<lparr>trade = r\<lparr>col_k := Some (astype_str (col_k r))\<rparr>,
                exporter = find (\<lambda>c. country_code c = col_i r) (country_codes aux),
                importer = find (\<lambda>c. country_code c = col_j r) (country_codes aux),
                product = find (\<lambda>p. code p = astype_str (col_k r)) (product_codes aux)\<rparr>) chunk"
proof -
  have "distinct (map (\<lambda>p. Some (code p)) (product_codes aux))"
    using assms(2) by (simp add: distinct_map inj_on_def)
  then show ?thesis
    by (simp add: process_chunk_def Let_def merge_left_unique assms(1) comp_def)
qed

lemma find_unique_key:
  "distinct (map f ys) \<Longrightarrow> y \<in> set ys \<Longrightarrow> find (\<lambda>z. f z = f y) ys = Some y"
proof (induction ys)
  case Nil
  then show ?case by simp
next
  case (Cons z zs)
  then show ?case by (cases "z = y") (auto simp: rev_image_eqI)
qed

lemma merge_left_fst:
  assumes "(l, m) \<in> set (merge_left lo ro left right)"
  shows "l \<in> set left"
proof -
  from assms obtain x where x: "x \<in> set left"
    "(l, m) \<in> set (case filter (\<lambda>r. ro r = lo x) right of
                      [] \<Rightarrow> [(x, None)] | ms \<Rightarrow> map (\<lambda>m. (x, Some m)) ms)"
    by (auto simp: merge_left_def)
  then have "l = x" by (cases "filter (\<lambda>r. ro r = lo x) right") auto
  with x(1) show ?thesis by simp
qed

lemma process_chunk_trade:
  assumes "out \<in> set (process_chunk aux chunk)"
  shows "\<exists>r \<in> set chunk. trade out = r\<lparr>col_k := Some (astype_str (col_k r))\<rparr>"
  using assms by (auto simp: process_chunk_def Let_def dest!: merge_left_fst)

lemma int64_column_length: "length (int64_column xs) = length xs"
  by (simp add: int64_column_def)

lemma int64_column_None:
  "n < length xs \<Longrightarrow> xs ! n = None \<Longrightarrow> int64_column xs ! n = None"
  by (simp add: int64_column_def)

lemma int64_column_Some:
  "n < length xs \<Longrightarrow> xs ! n = Some c \<Longrightarrow>
     int64_column xs ! n =
       Some (if list_all (\<lambda>x. x \<noteq> None) xs then of_int c else binary64 (of_int c))"
  by (simp add: int64_column_def)

lemma int64_column_rounds:
  "int64_column [Some 9007199254740993, None] = [Some 9007199254740992, None]"
  by code_simp

lemma binary64_eight: "binary64 8 = 8"
  using binary64_of_nat[of 8] by simp

lemma example_join:
  "process_chunk example_aux example_chunk =
     [\<lparr>trade = \<lparr>col_t = 2020, col_i = 4, col_j = 8, col_k = Some ''010121'', col_q = Some 3, col_v = None\<rparr>,
       exporter = Some \<lparr>country_code = 4, country_name = Some ''Afghanistan'', country_iso2 = Some ''AF'', country_iso3 = Some ''AFG''\<rparr>,
       importer = Some \<lparr>country_code = 8, country_name = Some ''Albania'', country_iso2 = Some ''AL'', country_iso3 = Some ''ALB''\<rparr>,
       product = Some \<lparr>code = ''010121'', description = Some ''Horses: live, pure-bred breeding animals''\<rparr>\<rparr>,
      \<lparr>trade = \<lparr>col_t = 2020, col_i = 4, col_j = 999, col_k = Some ''nan'', col_q = None, col_v = Some 7\<rparr>,
       exporter = Some \<lparr>country_code = 4, country_name = Some ''Afghanistan'', country_iso2 = Some ''AF'', country_iso3 = Some ''AFG''\<rparr>,
       importer = None, product = None\<rparr>]"
  by (simp add: process_chunk_def merge_left_def example_aux_def example_chunk_def
      example_countries_def example_products_def astype_str_def)

lemma process_chunk_matches:
  assumes "distinct (map country_code (country_codes aux))"
    and "distinct (map code (product_codes aux))"
  shows "map (\<lambda>r. map_option country_code (exporter r)) (process_chunk aux chunk) =
           map (\<lambda>r. map_option country_code (find (\<lambda>c. country_code c = col_i r) (country_codes aux))) chunk"
    and "map (\<lambda>r. map_option country_code (importer r)) (process_chunk aux chunk) =
           map (\<lambda>r. map_option country_code (find (\<lambda>c. country_code c = col_j r) (country_codes aux))) chunk"
  by (simp_all add: process_chunk_unique[OF assms] comp_def)

lemma find_key_None_iff:
  "find (\<lambda>c. f c = x) ys = None \<longleftrightarrow> x \<notin> f ` set ys"
  by (auto simp: find_None_iff)

lemma all_matched_iff:
  "list_all (\<lambda>x. x \<noteq> None) (map (\<lambda>r. map_option g (find (\<lambda>c. f c = key r) ys)) chunk)
     \<longleftrightarrow> list_all (\<lambda>r. key r \<in> f ` set ys) chunk"
  by (simp add: list_all_iff find_key_None_iff del: not_None_eq)

section \<open>Facts about sampling\<close>

lemma of_nat_below_2_53: "n < 2 ^ 53 \<Longrightarrow> (of_nat n :: rat) < power_int 2 (0 + 53)"
proof -
  assume "n < 2 ^ 53"
  then have "(of_nat n :: rat) < of_nat (2 ^ 53)" by (simp only: of_nat_less_iff)
  then have "(of_nat n :: rat) < 2 ^ 53" by (simp only: of_nat_power of_nat_numeral)
  then show ?thesis by (simp only: power_int_numeral add_0)
qed

lemma sample_size_zero: "sample_size f 0 = 0"
  by (simp add: sample_size_def float_mul_def binary64_def py_round_def round_half_even_def)

lemma sample_size_bounds:
  assumes "0 \<le> f" "f \<le> 1" "n < 2 ^ 53"
  shows "0 \<le> sample_size f n \<and> sample_size f n \<le> int n"
proof -
  have bn: "binary64 (of_nat n) = of_nat n" using assms(3) by (rule binary64_of_nat)
  let ?x = "f * of_nat n"
  have x0: "0 \<le> ?x" using assms(1) by simp
  have xn: "?x \<le> of_nat n" using assms(1,2) by (simp add: mult_left_le_one_le)
  have "binary64 ?x \<le> of_nat n"
  proof (cases "?x = 0")
    case True
    then show ?thesis by (simp add: binary64_def)
  next
    case False
    with x0 have p: "0 < ?x" by (metis less_le)
    have le: "?x \<le> of_int (int n) * power_int 2 0" using xn by simp
    have lt: "?x < power_int 2 (0 + 53)" using xn of_nat_below_2_53[OF assms(3)] by (rule le_less_trans)
    from binary64_upper[OF p le lt] show ?thesis by simp
  qed
  then have "binary64 ?x \<le> of_int (int n)" by simp
  then have "py_round (binary64 ?x) \<le> int n" by (rule py_round_le)
  moreover have "0 \<le> py_round (binary64 ?x)"
    using binary64_nonneg[OF x0] by (intro py_round_ge) simp
  ultimately show ?thesis by (simp add: sample_size_def float_mul_def bn)
qed

lemma mset_nths_subset:
  assumes "distinct ps" "\<forall>p \<in> set ps. p < length xs"
  shows "mset (map (\<lambda>p. xs ! p) ps) \<subseteq># mset xs"
proof -
  have "mset ps \<subseteq># mset [0..<length xs]"
    using assms by (metis mset_set_set mset_set_upto_eq_mset_upto
        subset_imp_msubset_mset_set finite_lessThan lessThan_iff subsetI)
  then have "image_mset (\<lambda>p. xs ! p) (mset ps) \<subseteq># image_mset (\<lambda>p. xs ! p) (mset [0..<length xs])"
    by (rule image_mset_subseteq_mono)
  moreover have "image_mset (\<lambda>p. xs ! p) (mset [0..<length xs]) = mset xs"
    by (metis map_nth mset_map)
  ultimately show ?thesis by simp
qed

lemma df_sample_ok:
  assumes "draws_without_replacement choice" "0 \<le> f" "f \<le> 1" "length x < 2 ^ 53"
  shows "\<exists>s g'. df_sample choice f g x = Inr (s, g') \<and> length s = nat (sample_size f (length x))
           \<and> mset s \<subseteq># mset x"
proof -
  let ?m = "nat (sample_size f (length x))"
  from sample_size_bounds[OF assms(2,3,4)]
  have b: "0 \<le> sample_size f (length x)" "sample_size f (length x) \<le> int (length x)" by simp_all
  then have m: "?m \<le> length x" by simp
  obtain ps g' where c: "choice g (length x) ?m = (ps, g')" by (cases "choice g (length x) ?m")
  from assms(1) m have "length (fst (choice g (length x) ?m)) = ?m"
    "distinct (fst (choice g (length x) ?m))"
    "\<forall>p \<in> set (fst (choice g (length x) ?m)). p < length x"
    unfolding draws_without_replacement_def by blast+
  then have ps: "length ps = ?m" "distinct ps" "\<forall>p \<in> set ps. p < length x" using c by simp_all
  have "df_sample choice f g x = Inr (map (\<lambda>p. x ! p) ps, g')"
    using assms(2,3) b c by (simp add: df_sample_def Let_def)
  moreover have "mset (map (\<lambda>p. x ! p) ps) \<subseteq># mset x" using ps by (intro mset_nths_subset)
  ultimately show ?thesis using ps(1) by simp
qed


lemma mset_filter_disjoint:
  "\<forall>x \<in> set xs. \<not> (P x \<and> Q x) \<Longrightarrow>
     mset (filter P xs) + mset (filter Q xs) = mset (filter (\<lambda>x. P x \<or> Q x) xs)"
  by (induction xs) auto

lemma groupby_apply_groups:
  fixes key :: "'a \<Rightarrow> 'k"
  assumes "draws_without_replacement choice" "0 \<le> f" "f \<le> 1" "length df < 2 ^ 53"
    and "distinct ks"
  shows "\<exists>out g'. groupby_apply choice f g (map (\<lambda>k. filter (\<lambda>r. key r = k) df) ks) = Inr (out, g')
           \<and> mset out \<subseteq># mset (filter (\<lambda>r. key r \<in> set ks) df)
           \<and> (\<forall>k. length (filter (\<lambda>r. key r = k) out) =
                 (if k \<in> set ks then nat (sample_size f (length (filter (\<lambda>r. key r = k) df))) else 0))"
  using assms(5)
proof (induction ks arbitrary: g)
  case Nil
  then show ?case by simp
next
  case (Cons k0 ks)
  let ?x = "filter (\<lambda>r. key r = k0) df"
  have lx: "length ?x < 2 ^ 53" using assms(4) by (rule le_less_trans[OF length_filter_le])
  have "\<exists>s g1. (if 0 < length ?x then df_sample choice f g ?x else Inr (?x, g)) = Inr (s, g1)
            \<and> length s = nat (sample_size f (length ?x)) \<and> mset s \<subseteq># mset ?x"
  proof (cases "0 < length ?x")
    case True
    then show ?thesis using df_sample_ok[OF assms(1,2,3) lx, of g] by simp
  next
    case False
    then show ?thesis by (simp add: sample_size_zero)
  qed
  then obtain s g1 where s: "(if 0 < length ?x then df_sample choice f g ?x else Inr (?x, g)) = Inr (s, g1)"
    "length s = nat (sample_size f (length ?x))" "mset s \<subseteq># mset ?x" by blast
  from Cons.prems have d: "distinct ks" "k0 \<notin> set ks" by simp_all
  from Cons.IH[OF d(1), of g1] obtain rest g2 where
    r: "groupby_apply choice f g1 (map (\<lambda>k. filter (\<lambda>r. key r = k) df) ks) = Inr (rest, g2)"
       "mset rest \<subseteq># mset (filter (\<lambda>r. key r \<in> set ks) df)"
       "\<forall>k. length (filter (\<lambda>r. key r = k) rest) =
                 (if k \<in> set ks then nat (sample_size f (length (filter (\<lambda>r. key r = k) df))) else 0)"
    by blast
  have res: "groupby_apply choice f g (map (\<lambda>k. filter (\<lambda>r. key r = k) df) (k0 # ks)) = Inr (s @ rest, g2)"
    using s(1) r(1) by simp
  have "mset (s @ rest) \<subseteq># mset ?x + mset (filter (\<lambda>r. key r \<in> set ks) df)"
    using s(3) r(2) by (simp add: subset_mset.add_mono)
  also have "\<dots> = mset (filter (\<lambda>r. key r = k0 \<or> key r \<in> set ks) df)"
    using d(2) by (intro mset_filter_disjoint) auto
  finally have sub: "mset (s @ rest) \<subseteq># mset (filter (\<lambda>r. key r \<in> set (k0 # ks)) df)" by simp
  have "set s \<subseteq> set ?x" using set_mset_mono[OF s(3)] by simp
  then have skey: "\<forall>r \<in> set s. key r = k0" by auto
  have cnt: "length (filter (\<lambda>r. key r = k) (s @ rest)) =
      (if k \<in> set (k0 # ks) then nat (sample_size f (length (filter (\<lambda>r. key r = k) df))) else 0)" for k
  proof (cases "k = k0")
    case True
    have "filter (\<lambda>r. key r = k0) s = s" using skey by (simp add: filter_id_conv)
    moreover have "length (filter (\<lambda>r. key r = k0) rest) = 0" using r(3) d(2) by simp
    ultimately show ?thesis using True s(2) by simp
  next
    case False
    have "filter (\<lambda>r. key r = k) s = []" using skey False by (auto simp: filter_empty_conv)
    then show ?thesis using False r(3) by simp
  qed
  show ?case using res sub cnt by blast
qed

lemma groupby_keys:
  "distinct (sort (remdups (map group_key df)))"
  "set (sort (remdups (map group_key df))) = group_key ` set df"
  by simp_all

lemma take_first_draws: "draws_without_replacement take_first"
  by (simp add: draws_without_replacement_def take_first_def)

lemma take_last_draws: "draws_without_replacement take_last"
  by (auto simp: draws_without_replacement_def take_last_def)

lemma example_sample_sizes:
  "sample_size (1 / 2) 10 = 5" "sample_size (1 / 2) 1 = 0" "sample_size (1 / 2) 2 = 1"
  by code_simp+

section \<open>The summary counts\<close>

text \<open>
  C1. The claim: the summary's count of distinct countries is the number of distinct
  identifiers in the union of the exporter-code and importer-code columns, so that a
  country in both columns counts once. The code adds the two columns' distinct counts
  instead: on two rows in which countries 1 and 2 trade with each other, the entry
  \<^verbatim>\<open>Unique Countries\<close> is 4, while the union of the two columns has 2 identifiers.
\<close>

theorem unique_countries_counts_shared_country_twice:
  "unique_countries_value (generate_summary two_way_trade) = 4 \<and>
   card (set (map (\<lambda>r. col_i (trade r)) two_way_trade) \<union>
         set (map (\<lambda>r. col_j (trade r)) two_way_trade)) = 2"
proof -
  have "set (map (\<lambda>r. col_i (trade r)) two_way_trade) \<union>
        set (map (\<lambda>r. col_j (trade r)) two_way_trade) = {1, 2}"
    by (auto simp: two_way_trade_def example_row_def)
  moreover have "unique_countries_value (generate_summary two_way_trade) = 4"
    by (simp add: generate_summary_def unique_countries_def nunique_def two_way_trade_def
        example_row_def)
  ultimately show ?thesis by simp
qed

section \<open>The coordinator\<close>

text \<open>
  C2. The claim: when at least one main file fails and at least one succeeds, the run
  completes and \<^verbatim>\<open>total_files_processed\<close> is the number of files that succeeded. The
  code writes \<^verbatim>\<open>len(self.main_files)\<close>: in the run over two main files of which one
  fails, the run completes, one file succeeded, and the field is 2.
\<close>

theorem total_files_processed_counts_failed_file:
  "map_sum id (\<lambda>out. total_files_processed (run_metadata out))
     (fst (process_data (example_config ''csv'') example_env True True)) = Inr 2 \<and>
   map_sum id (\<lambda>a. length (successful (map (future_result example_env) (main_files a))))
     (fst (analyze_files example_env)) = Inr 1"
  by (simp add: process_data_eq[OF analyze_files_example_env] analyze_files_example_env example_run)

text \<open>
  C3. A failure of one file's task is caught in the loop and logged by the logger under
  the file's index; the loop goes on, so that when some file succeeds the outcome of the
  run is decided by the writer alone and the data written is the concatenation of the
  results of the files that succeeded. The run raises \<open>NoDataProcessed\<close> exactly when
  the file analysis succeeded and the task of every main file it found failed.
\<close>

theorem per_file_failure_does_not_abort_run:
  "(fst (process_data self env pcb lcb) = Inl NoDataProcessed \<longleftrightarrow>
      (\<exists>a. fst (analyze_files env) = Inr a \<and> (\<forall>f \<in> set (main_files a). isl (future_result env f))))
   \<and> (\<forall>a. fst (analyze_files env) = Inr a \<longrightarrow>
         (\<forall>i e. i < length (main_files a) \<and> future_result env (main_files a ! i) = Inl e \<longrightarrow>
            (i, e) \<in> set (file_error_logs (snd (process_data self env pcb lcb))))
         \<and> ((\<exists>f \<in> set (main_files a). \<not> isl (future_result env f)) \<longrightarrow>
              (case save_data (file_format self) of
                 Inl e \<Rightarrow> fst (process_data self env pcb lcb) = Inl e
               | Inr ext \<Rightarrow>
                   \<exists>out. fst (process_data self env pcb lcb) = Inr out \<and>
                     final_data out =
                       concat (successful (map (future_result env) (main_files a))))))"
proof (cases "analyze_files env")
  case (Pair res logs)
  show ?thesis
  proof (cases res)
    case (Inl e0)
    have "fst (analyze_files env) = Inl e0" using Pair Inl by simp
    from analyze_files_error[OF this] have "e0 \<noteq> NoDataProcessed" by auto
    then show ?thesis using Pair Inl by (simp add: process_data_def fail_def)
  next
    case (Inr a)
    have an: "analyze_files env = (Inr a, logs)" using Pair Inr by simp
    have fa: "fst (analyze_files env) = Inr a" using an by simp
    let ?futs = "map (future_result env) (main_files a)"
    have iff: "fst (process_data self env pcb lcb) = Inl NoDataProcessed \<longleftrightarrow>
        (\<forall>f \<in> set (main_files a). isl (future_result env f))"
      by (auto simp: process_data_eq[OF an] Let_def fail_def all_fail_iff save_data_def
          split: sum.splits)
    have logged: "(i, e) \<in> set (file_error_logs (snd (process_data self env pcb lcb)))"
      if "i < length (main_files a)" "future_result env (main_files a ! i) = Inl e" for i e
    proof -
      have "(i, Inl e) \<in> set (enumerate 0 ?futs)" using that by (simp add: in_set_enumerate_eq)
      then have "(i, e) \<in> (\<lambda>(k, fut). (k, projl fut)) `
          set (filter (\<lambda>(k, fut). isl fut) (enumerate 0 ?futs))" by force
      then show ?thesis by (simp add: run_file_error_logs[OF fa])
    qed
    have cont: "case save_data (file_format self) of
                 Inl e \<Rightarrow> fst (process_data self env pcb lcb) = Inl e
               | Inr ext \<Rightarrow>
                   \<exists>out. fst (process_data self env pcb lcb) = Inr out \<and>
                     final_data out = concat (successful ?futs)"
      if "\<exists>f \<in> set (main_files a). \<not> isl (future_result env f)"
    proof -
      have "successful ?futs \<noteq> []" using that by (simp add: all_fail_iff)
      then show ?thesis
        by (simp add: process_data_eq[OF an] Let_def fail_def split: sum.splits)
    qed
    show ?thesis using iff logged cont fa by auto
  qed
qed

theorem per_file_failure_does_not_abort_run_witness:
  "fst (analyze_files example_env) = Inr example_analysis
   \<and> (1::nat) < length (main_files example_analysis)
   \<and> future_result example_env (main_files example_analysis ! 1) = Inl (ReadError ''Error tokenizing data'')
   \<and> (\<exists>f \<in> set (main_files example_analysis). \<not> isl (future_result example_env f))
   \<and> save_data (file_format (example_config ''csv'')) = Inr ''.csv''
   \<and> fst (process_data (example_config ''csv'') example_env True True) \<noteq> Inl NoDataProcessed
   \<and> (1, ReadError ''Error tokenizing data'')
        \<in> set (file_error_logs (snd (process_data (example_config ''csv'') example_env True True)))
   \<and> (\<exists>out. fst (process_data (example_config ''csv'') example_env True True) = Inr out \<and>
         final_data out = two_way_trade)"
proof -
  have a: "fst (analyze_files example_env) = Inr example_analysis" by (simp add: analyze_files_example_env)
  have i: "(1::nat) < length (main_files example_analysis)" by (simp add: example_main_files)
  have f: "future_result example_env (main_files example_analysis ! 1) = Inl (ReadError ''Error tokenizing data'')"
    by (simp add: example_main_files example_future_results)
  have s: "\<exists>f \<in> set (main_files example_analysis). \<not> isl (future_result example_env f)"
    by (simp add: example_main_files example_future_results)
  have w: "save_data (file_format (example_config ''csv'')) = Inr ''.csv''"
    by (simp add: example_config_def save_data_def)
  have c: "concat (successful (map (future_result example_env) (main_files example_analysis))) = two_way_trade"
    by (simp add: example_main_files example_future_results)
  note t = per_file_failure_does_not_abort_run[of "example_config ''csv''" example_env True True]
  from t a s have "fst (process_data (example_config ''csv'') example_env True True) \<noteq> Inl NoDataProcessed"
    by auto
  moreover from t a i f have "(1, ReadError ''Error tokenizing data'')
        \<in> set (file_error_logs (snd (process_data (example_config ''csv'') example_env True True)))"
    by blast
  moreover from t a s w c have "\<exists>out. fst (process_data (example_config ''csv'') example_env True True) = Inr out \<and>
         final_data out = two_way_trade"
    by (auto split: sum.splits)
  ultimately show ?thesis using a i f s w by blast
qed

text \<open>
  C7. The claim: a run configured with an output format outside parquet, feather, csv and
  hdf5 fails with the unsupported-format error, and the format is checked before any
  file is processed. The code checks the format only in \<^verbatim>\<open>save_data\<close>, after the loop over
  the futures: with format \<^verbatim>\<open>xlsx\<close>, the run over two files has already delivered a
  progress value and a log line, and logged the failure of the second file, when the
  error is raised; and when every file fails the run ends with \<open>NoDataProcessed\<close>, the
  format never being looked at.
\<close>

theorem unsupported_format_found_after_processing:
  "process_data (example_config ''xlsx'') example_env True True =
     (Inl (UnsupportedFileFormat ''xlsx''),
      [Logger (FoundCsvFiles 4), Logger (IdentifiedMainFiles 2),
       Logger (ProcessingAuxiliaryFile ''country_codes''),
       Logger (ProcessingAuxiliaryFile ''product_codes''), Logger FileAnalysisCompleted,
       ProgressCallback 50, LogCallback (ProcessedFile 1 2),
       Logger (ErrorProcessingFile 1 (ReadError ''Error tokenizing data'')),
       Logger (ErrorInProcessData (UnsupportedFileFormat ''xlsx'')),
       LogCallback (ErrorMessage (UnsupportedFileFormat ''xlsx''))]) \<and>
   fst (process_data (example_config ''xlsx'') all_fail_env True True) = Inl NoDataProcessed"
  by (simp add: process_data_eq[OF analyze_files_example_env] process_data_eq[OF analyze_files_all_fail_env]
      example_run)

text \<open>
  C7, as the code has it. A run configured with an output format outside the four fails:
  with the error of the file analysis when that fails; otherwise after every future has
  been awaited and its callbacks or error record emitted, with \<open>NoDataProcessed\<close> when
  every file failed and with the unsupported-format error of the writer when some file
  succeeded.
\<close>

theorem unsupported_format_raised_by_writer:
  assumes "file_format self \<notin> {''parquet'', ''feather'', ''csv'', ''hdf5''}"
  shows "(\<forall>e. fst (analyze_files env) = Inl e \<longrightarrow> fst (process_data self env pcb lcb) = Inl e)
    \<and> (\<forall>a logs. analyze_files env = (Inr a, logs) \<longrightarrow>
          process_data self env pcb lcb =
            fail lcb
              (if \<forall>f \<in> set (main_files a). isl (future_result env f) then NoDataProcessed
               else UnsupportedFileFormat (file_format self))
              (map Logger logs
               @ concat (map (file_events pcb lcb (length (main_files a)))
                             (enumerate 0 (map (future_result env) (main_files a))))))"
proof -
  have "fst (process_data self env pcb lcb) = Inl e" if "fst (analyze_files env) = Inl e" for e
    using that by (cases "analyze_files env") (simp add: process_data_def fail_def)
  moreover have "process_data self env pcb lcb =
            fail lcb
              (if \<forall>f \<in> set (main_files a). isl (future_result env f) then NoDataProcessed
               else UnsupportedFileFormat (file_format self))
              (map Logger logs
               @ concat (map (file_events pcb lcb (length (main_files a)))
                             (enumerate 0 (map (future_result env) (main_files a)))))"
    if "analyze_files env = (Inr a, logs)" for a logs
    using save_data_unsupported[OF assms]
    by (simp add: process_data_eq[OF that] Let_def all_fail_iff)
  ultimately show ?thesis by blast
qed

theorem unsupported_format_raised_by_writer_witness:
  "file_format (example_config ''xlsx'') \<notin> {''parquet'', ''feather'', ''csv'', ''hdf5''}
   \<and> analyze_files example_env =
       (Inr example_analysis,
        [FoundCsvFiles 4, IdentifiedMainFiles 2, ProcessingAuxiliaryFile ''country_codes'',
         ProcessingAuxiliaryFile ''product_codes'', FileAnalysisCompleted])
   \<and> \<not> (\<forall>f \<in> set (main_files example_analysis). isl (future_result example_env f))
   \<and> fst (process_data (example_config ''xlsx'') example_env True True) =
       Inl (UnsupportedFileFormat ''xlsx'')
   \<and> ProgressCallback 50 \<in> set (snd (process_data (example_config ''xlsx'') example_env True True))"
proof -
  have h: "file_format (example_config ''xlsx'') \<notin> {''parquet'', ''feather'', ''csv'', ''hdf5''}"
    by (simp add: example_config_def)
  have s: "\<not> (\<forall>f \<in> set (main_files example_analysis). isl (future_result example_env f))"
    by (simp add: example_main_files example_future_results)
  from unsupported_format_raised_by_writer[OF h, of example_env True True] analyze_files_example_env
  have "process_data (example_config ''xlsx'') example_env True True =
      fail True
        (if \<forall>f \<in> set (main_files example_analysis). isl (future_result example_env f)
         then NoDataProcessed else UnsupportedFileFormat (file_format (example_config ''xlsx'')))
        (map Logger [FoundCsvFiles 4, IdentifiedMainFiles 2, ProcessingAuxiliaryFile ''country_codes'',
                     ProcessingAuxiliaryFile ''product_codes'', FileAnalysisCompleted]
         @ concat (map (file_events True True (length (main_files example_analysis)))
                       (enumerate 0 (map (future_result example_env) (main_files example_analysis)))))"
    by blast
  then have "fst (process_data (example_config ''xlsx'') example_env True True) =
       Inl (UnsupportedFileFormat ''xlsx'')
     \<and> ProgressCallback 50 \<in> set (snd (process_data (example_config ''xlsx'') example_env True True))"
    by (simp add: example_run)
  with h s analyze_files_example_env show ?thesis by blast
qed

text \<open>
  C9. The futures are awaited in the order of \<^verbatim>\<open>self.main_files\<close>, the order in which the
  files were found. The data of a run that returns is the concatenation of the results
  of the futures that returned, in that order; the progress values and the
  "Processed file k of n" lines are those of the futures that returned, taken in
  ascending index, so the file numbers \<open>k\<close> reported are strictly increasing. The order
  in which the workers finish is no input of the loop.
\<close>

theorem results_and_callbacks_follow_submission_order:
  assumes "fst (analyze_files env) = Inr a"
  shows "(\<forall>out. fst (process_data self env pcb lcb) = Inr out \<longrightarrow>
            final_data out = concat (successful (map (future_result env) (main_files a))))
    \<and> progress_values (snd (process_data self env pcb lcb)) =
        (if pcb then map (\<lambda>(i, future). progress i (length (main_files a)))
                        (filter (\<lambda>(i, future). \<not> isl future)
                                (enumerate 0 (map (future_result env) (main_files a))))
         else [])
    \<and> processed_file_logs (snd (process_data self env pcb lcb)) =
        (if lcb then map (\<lambda>(i, future). (i + 1, length (main_files a)))
                        (filter (\<lambda>(i, future). \<not> isl future)
                                (enumerate 0 (map (future_result env) (main_files a))))
         else [])
    \<and> sorted_wrt (<) (map fst (processed_file_logs (snd (process_data self env pcb lcb))))"
proof -
  obtain logs where an: "analyze_files env = (Inr a, logs)"
    using assms by (cases "analyze_files env") auto
  have 1: "final_data out = concat (successful (map (future_result env) (main_files a)))"
    if "fst (process_data self env pcb lcb) = Inr out" for out
    using that by (auto simp: process_data_eq[OF an] Let_def fail_def split: if_splits sum.splits)
  let ?L = "filter (\<lambda>(i, future). \<not> isl future) (enumerate 0 (map (future_result env) (main_files a)))"
  have "sorted_wrt (\<lambda>x y. fst x < fst y) ?L"
    using sorted_wrt_enumerate_filter[of "\<lambda>(i, future). \<not> isl future" 0]
    by (simp add: sorted_wrt_map)
  then have "sorted_wrt (<) (map fst (map (\<lambda>(i, future). (i + 1, length (main_files a))) ?L))"
    by (simp add: sorted_wrt_map case_prod_beta)
  then have 4: "sorted_wrt (<) (map fst (processed_file_logs (snd (process_data self env pcb lcb))))"
    by (simp add: run_processed_file_logs[OF assms])
  show ?thesis using 1 4 run_progress_values[OF assms] run_processed_file_logs[OF assms] by blast
qed

theorem results_and_callbacks_follow_submission_order_witness:
  "fst (analyze_files example_env) = Inr example_analysis
   \<and> (\<exists>out. fst (process_data (example_config ''csv'') example_env True True) = Inr out \<and>
         final_data out = two_way_trade)
   \<and> progress_values (snd (process_data (example_config ''csv'') example_env True True)) = [50]
   \<and> processed_file_logs (snd (process_data (example_config ''csv'') example_env True True)) = [(1, 2)]"
proof -
  have a: "fst (analyze_files example_env) = Inr example_analysis" by (simp add: analyze_files_example_env)
  have r: "\<exists>out. fst (process_data (example_config ''csv'') example_env True True) = Inr out"
    by (simp add: process_data_eq[OF analyze_files_example_env] example_run)
  have c: "concat (successful (map (future_result example_env) (main_files example_analysis))) = two_way_trade"
    by (simp add: example_main_files example_future_results)
  have e: "filter (\<lambda>(i, future). \<not> isl future)
             (enumerate 0 (map (future_result example_env) (main_files example_analysis)))
           = [(0, Inr two_way_trade)]"
    by (simp add: example_main_files example_future_results enumerate_eq_zip)
  note t = results_and_callbacks_follow_submission_order[OF a, of "example_config ''csv''" True True]
  from t r c have "\<exists>out. fst (process_data (example_config ''csv'') example_env True True) = Inr out \<and>
         final_data out = two_way_trade" by auto
  moreover from t e have "progress_values (snd (process_data (example_config ''csv'') example_env True True)) = [50]"
    by (simp add: example_main_files example_progress)
  moreover from t e have "processed_file_logs (snd (process_data (example_config ''csv'') example_env True True)) = [(1, 2)]"
    by (simp add: example_main_files)
  ultimately show ?thesis using a by blast
qed

text \<open>
  C10. The events of a run are the records of the file analysis, then what each future
  adds, in the order of the futures, then a closing part without progress values or
  "Processed file" lines. A future that raises adds one error record of the logger and
  no callback: no "Processed file" line carries its number, and there are exactly as
  many progress values and as many such lines as there are futures that returned. With a progress callback (and at most \<open>2 ^ 52\<close> files, so
  that no quotient below one rounds to one), the last progress value delivered is 100
  exactly when the last future returned. The run over the two example files returns,
  and the last value it delivers is 50.
\<close>

theorem failed_file_fires_no_callback:
  assumes "fst (analyze_files env) = Inr a"
  shows "(\<exists>closing.
            snd (process_data self env pcb lcb) =
              map Logger (snd (analyze_files env))
              @ concat (map (file_events pcb lcb (length (main_files a)))
                            (enumerate 0 (map (future_result env) (main_files a))))
              @ closing
            \<and> progress_values closing = [] \<and> processed_file_logs closing = [])
    \<and> (\<forall>i e. future_result env (main_files a ! i) = Inl e \<longrightarrow>
          file_events pcb lcb (length (main_files a)) (i, future_result env (main_files a ! i)) =
            [Logger (ErrorProcessingFile i e)])
    \<and> (\<forall>i < length (main_files a). isl (future_result env (main_files a ! i)) \<longrightarrow>
            (\<forall>m. (i + 1, m) \<notin> set (processed_file_logs (snd (process_data self env pcb lcb)))))
    \<and> length (progress_values (snd (process_data self env pcb lcb))) =
        (if pcb then length (successful (map (future_result env) (main_files a))) else 0)
    \<and> length (processed_file_logs (snd (process_data self env pcb lcb))) =
        (if lcb then length (successful (map (future_result env) (main_files a))) else 0)
    \<and> (pcb \<and> length (main_files a) \<le> 2 ^ 52 \<longrightarrow>
         (progress_values (snd (process_data self env pcb lcb)) \<noteq> [] \<and>
          last (progress_values (snd (process_data self env pcb lcb))) = 100
          \<longleftrightarrow> main_files a \<noteq> [] \<and> \<not> isl (future_result env (last (main_files a)))))
    \<and> (\<exists>out. fst (process_data (example_config ''csv'') example_env True True) = Inr out)
    \<and> last (progress_values (snd (process_data (example_config ''csv'') example_env True True))) = 50"
proof -
  let ?futs = "map (future_result env) (main_files a)"
  let ?run = "process_data self env pcb lcb"
  have 1: "(i + 1, m) \<notin> set (processed_file_logs (snd ?run))"
    if "i < length (main_files a)" "isl (future_result env (main_files a ! i))" for i m
    using that by (auto simp: run_processed_file_logs[OF assms] in_set_enumerate_eq)
  have 2: "length (progress_values (snd ?run)) = (if pcb then length (successful ?futs) else 0)"
    by (simp add: run_progress_values[OF assms] length_successful[of ?futs 0])
  have 3: "length (processed_file_logs (snd ?run)) = (if lcb then length (successful ?futs) else 0)"
    by (simp add: run_processed_file_logs[OF assms] length_successful[of ?futs 0])
  have 4: "progress_values (snd ?run) \<noteq> [] \<and> last (progress_values (snd ?run)) = 100
          \<longleftrightarrow> main_files a \<noteq> [] \<and> \<not> isl (future_result env (last (main_files a)))"
    if "pcb" "length (main_files a) \<le> 2 ^ 52"
  proof -
    have pv: "progress_values (snd ?run) = map (\<lambda>(k, fut). progress k (length (main_files a)))
        (filter (\<lambda>(k, fut). \<not> isl fut) (enumerate 0 ?futs))"
      using that(1) by (simp add: run_progress_values[OF assms])
    have eq: "length (main_files a) = length ?futs" by simp
    have "progress_values (snd ?run) \<noteq> [] \<and> last (progress_values (snd ?run)) = 100
          \<longleftrightarrow> ?futs \<noteq> [] \<and> \<not> isl (last ?futs)"
      unfolding pv by (rule last_progress_100_iff[OF eq that(2)])
    then show ?thesis by (auto simp: last_map)
  qed
  have 5: "\<exists>out. fst (process_data (example_config ''csv'') example_env True True) = Inr out"
    by (simp add: process_data_eq[OF analyze_files_example_env] example_run)
  have 6: "last (progress_values (snd (process_data (example_config ''csv'') example_env True True))) = 50"
    by (simp add: process_data_eq[OF analyze_files_example_env] example_run progress_values_def)
  obtain logs where an: "analyze_files env = (Inr a, logs)"
    using assms by (cases "analyze_files env") auto
  have 7: "\<exists>closing.
            snd ?run =
              map Logger (snd (analyze_files env))
              @ concat (map (file_events pcb lcb (length (main_files a))) (enumerate 0 ?futs))
              @ closing
            \<and> progress_values closing = [] \<and> processed_file_logs closing = []"
    using process_data_events[OF an, of self pcb lcb] an by auto
  have 8: "file_events pcb lcb (length (main_files a)) (i, future_result env (main_files a ! i)) =
            [Logger (ErrorProcessingFile i e)]"
    if "future_result env (main_files a ! i) = Inl e" for i e
    using that by (simp add: file_events_def)
  show ?thesis using 1 2 3 4 5 6 7 8 by blast
qed

theorem failed_file_fires_no_callback_witness:
  "fst (analyze_files example_env) = Inr example_analysis
   \<and> (1::nat) < length (main_files example_analysis)
   \<and> isl (future_result example_env (main_files example_analysis ! 1))
   \<and> length (main_files example_analysis) \<le> 2 ^ 52
   \<and> isl (future_result example_env (last (main_files example_analysis)))
   \<and> (2, 2) \<notin> set (processed_file_logs (snd (process_data (example_config ''csv'') example_env True True)))
   \<and> length (progress_values (snd (process_data (example_config ''csv'') example_env True True))) = 1
   \<and> \<not> (progress_values (snd (process_data (example_config ''csv'') example_env True True)) \<noteq> [] \<and>
          last (progress_values (snd (process_data (example_config ''csv'') example_env True True))) = 100)"
proof -
  have a: "fst (analyze_files example_env) = Inr example_analysis" by (simp add: analyze_files_example_env)
  have i: "(1::nat) < length (main_files example_analysis)" by (simp add: example_main_files)
  have f: "isl (future_result example_env (main_files example_analysis ! 1))"
    by (simp add: example_main_files example_future_results)
  have n: "length (main_files example_analysis) \<le> 2 ^ 52" by (simp add: example_main_files)
  have l: "isl (future_result example_env (last (main_files example_analysis)))"
    by (simp add: example_main_files example_future_results)
  have s: "length (successful (map (future_result example_env) (main_files example_analysis))) = 1"
    by (simp add: example_main_files example_future_results)
  note t = failed_file_fires_no_callback[OF a, of "example_config ''csv''" True True]
  have t1: "\<forall>i < length (main_files example_analysis).
      isl (future_result example_env (main_files example_analysis ! i)) \<longrightarrow>
      (\<forall>m. (i + 1, m) \<notin> set (processed_file_logs (snd (process_data (example_config ''csv'') example_env True True))))"
    using t by (elim conjE)
  have t2: "length (progress_values (snd (process_data (example_config ''csv'') example_env True True))) =
      (if True then length (successful (map (future_result example_env) (main_files example_analysis))) else 0)"
    using t by (elim conjE)
  have t4: "True \<and> length (main_files example_analysis) \<le> 2 ^ 52 \<longrightarrow>
      (progress_values (snd (process_data (example_config ''csv'') example_env True True)) \<noteq> [] \<and>
       last (progress_values (snd (process_data (example_config ''csv'') example_env True True))) = 100
       \<longleftrightarrow> main_files example_analysis \<noteq> [] \<and>
           \<not> isl (future_result example_env (last (main_files example_analysis))))"
    using t by (elim conjE)
  have c1: "(2, 2) \<notin> set (processed_file_logs (snd (process_data (example_config ''csv'') example_env True True)))"
    using t1[rule_format, OF i f, of 2] by (simp add: numeral_2_eq_2)
  have c2: "length (progress_values (snd (process_data (example_config ''csv'') example_env True True))) = 1"
    using t2 s by simp
  have c3: "\<not> (progress_values (snd (process_data (example_config ''csv'') example_env True True)) \<noteq> [] \<and>
          last (progress_values (snd (process_data (example_config ''csv'') example_env True True))) = 100)"
    using t4 n l by blast
  show ?thesis using a i f n l c1 c2 c3 by (intro conjI)
qed

section \<open>The join step\<close>

text \<open>
  C4. The claim: with unique keys in both reference tables the join returns as many rows
  as it is given, and a row with an unmatched exporter, importer or product key is
  retained with its original trade fields and null enrichment fields. The row is
  retained, but not always with its original fields: \<^verbatim>\<open>chunk['k'].astype(str)\<close> rewrites
  the product code before the third merge, and a null product code, which can have no
  match as a null, leaves the join as the string \<^verbatim>\<open>'nan'\<close>. The second row of the example
  chunk has a null product code: the tables have unique keys, the product merge finds no
  match for it, and its \<^verbatim>\<open>k\<close> comes out as \<^verbatim>\<open>'nan'\<close>, so its trade fields are not those
  it came with.
\<close>

theorem null_product_code_becomes_nan:
  "distinct (map country_code (country_codes example_aux))
   \<and> distinct (map code (product_codes example_aux))
   \<and> length (process_chunk example_aux example_chunk) = length example_chunk
   \<and> col_k (example_chunk ! 1) = None
   \<and> product (process_chunk example_aux example_chunk ! 1) = None
   \<and> col_k (trade (process_chunk example_aux example_chunk ! 1)) = Some ''nan''
   \<and> trade (process_chunk example_aux example_chunk ! 1) \<noteq> example_chunk ! 1"
proof -
  have "distinct (map country_code (country_codes example_aux))"
    "distinct (map code (product_codes example_aux))"
    by (simp_all add: example_aux_def example_countries_def example_products_def)
  moreover have "col_k (example_chunk ! 1) = None" "length example_chunk = 2"
    by (simp_all add: example_chunk_def)
  moreover have "product (process_chunk example_aux example_chunk ! 1) = None"
    "col_k (trade (process_chunk example_aux example_chunk ! 1)) = Some ''nan''"
    "length (process_chunk example_aux example_chunk) = 2"
    by (simp_all add: example_join)
  moreover have "trade (process_chunk example_aux example_chunk ! 1) \<noteq> example_chunk ! 1"
  proof -
    have "col_k (trade (process_chunk example_aux example_chunk ! 1)) = Some ''nan''"
      by (simp add: example_join)
    moreover have "col_k (example_chunk ! 1) = None" by (simp add: example_chunk_def)
    ultimately show ?thesis by auto
  qed
  ultimately show ?thesis by simp
qed

text \<open>
  C4, as the code has it. With unique keys in both reference tables, \<^verbatim>\<open>process_chunk\<close>
  returns as many rows as it is given, row \<open>n\<close> of the result being row \<open>n\<close> of the chunk.
  Its columns \<^verbatim>\<open>t\<close>, \<^verbatim>\<open>i\<close>, \<^verbatim>\<open>j\<close>, \<^verbatim>\<open>q\<close>, \<^verbatim>\<open>v\<close> are those of the chunk and its
  product code is the string form of the chunk's: the same code when there is one (the
  row then keeps all six columns as they are), \<^verbatim>\<open>'nan'\<close> when it is null. A key without a
  match in its table leaves every column of that merge null. A key with a match takes
  the name and ISO columns, or the code and description, of the matching reference row;
  the numeric code column holds the matching code, exactly when every row of the chunk
  has a match for that key and as the nearest float otherwise. The function has no error
  result: on rows with the declared columns no step of it raises.
\<close>

theorem join_keeps_every_row:
  assumes "distinct (map country_code (country_codes aux))"
    and "distinct (map code (product_codes aux))"
  shows "length (process_chunk aux chunk) = length chunk
    \<and> (\<forall>n < length chunk.
          trade (process_chunk aux chunk ! n) =
            (chunk ! n)\<lparr>col_k := Some (astype_str (col_k (chunk ! n)))\<rparr>
        \<and> (col_k (chunk ! n) \<noteq> None \<longrightarrow> trade (process_chunk aux chunk ! n) = chunk ! n)
        \<and> (col_k (chunk ! n) = None \<longrightarrow>
             col_k (trade (process_chunk aux chunk ! n)) = Some ''nan'')
        \<and> (col_i (chunk ! n) \<notin> country_code ` set (country_codes aux) \<longrightarrow>
             exporter (process_chunk aux chunk ! n) = None
           \<and> col_country_code (process_chunk aux chunk) ! n = None
           \<and> exporter_name (process_chunk aux chunk ! n) = None
           \<and> exporter_iso2 (process_chunk aux chunk ! n) = None
           \<and> exporter_iso3 (process_chunk aux chunk ! n) = None)
        \<and> (col_j (chunk ! n) \<notin> country_code ` set (country_codes aux) \<longrightarrow>
             importer (process_chunk aux chunk ! n) = None
           \<and> country_code_importer (process_chunk aux chunk) ! n = None
           \<and> importer_name (process_chunk aux chunk ! n) = None
           \<and> importer_iso2 (process_chunk aux chunk ! n) = None
           \<and> importer_iso3 (process_chunk aux chunk ! n) = None)
        \<and> (astype_str (col_k (chunk ! n)) \<notin> code ` set (product_codes aux) \<longrightarrow>
             product (process_chunk aux chunk ! n) = None
           \<and> col_code (process_chunk aux chunk ! n) = None
           \<and> col_description (process_chunk aux chunk ! n) = None)
        \<and> (\<forall>c \<in> set (country_codes aux).
              (country_code c = col_i (chunk ! n) \<longrightarrow>
                 exporter_name (process_chunk aux chunk ! n) = country_name c
               \<and> exporter_iso2 (process_chunk aux chunk ! n) = country_iso2 c
               \<and> exporter_iso3 (process_chunk aux chunk ! n) = country_iso3 c
               \<and> col_country_code (process_chunk aux chunk) ! n =
                   Some (if list_all (\<lambda>r. col_i r \<in> country_code ` set (country_codes aux)) chunk
                         then of_int (country_code c) else binary64 (of_int (country_code c))))
            \<and> (country_code c = col_j (chunk ! n) \<longrightarrow>
                 importer_name (process_chunk aux chunk ! n) = country_name c
               \<and> importer_iso2 (process_chunk aux chunk ! n) = country_iso2 c
               \<and> importer_iso3 (process_chunk aux chunk ! n) = country_iso3 c
               \<and> country_code_importer (process_chunk aux chunk) ! n =
                   Some (if list_all (\<lambda>r. col_j r \<in> country_code ` set (country_codes aux)) chunk
                         then of_int (country_code c) else binary64 (of_int (country_code c)))))
        \<and> (\<forall>p \<in> set (product_codes aux).
              code p = astype_str (col_k (chunk ! n)) \<longrightarrow>
                col_code (process_chunk aux chunk ! n) = Some (code p)
              \<and> col_description (process_chunk aux chunk ! n) = description p))"
proof -
  note eq = process_chunk_unique[OF assms, of chunk]
  note cols = process_chunk_matches[OF assms, of chunk]
  let ?E = "map (\<lambda>r. map_option country_code (find (\<lambda>c. country_code c = col_i r) (country_codes aux))) chunk"
  let ?I = "map (\<lambda>r. map_option country_code (find (\<lambda>c. country_code c = col_j r) (country_codes aux))) chunk"
  have len: "length (process_chunk aux chunk) = length chunk" by (simp add: eq)
  have row: "process_chunk aux chunk ! n =
      \<lparr>trade = (chunk ! n)\<lparr>col_k := Some (astype_str (col_k (chunk ! n)))\<rparr>,
       exporter = find (\<lambda>c. country_code c = col_i (chunk ! n)) (country_codes aux),
       importer = find (\<lambda>c. country_code c = col_j (chunk ! n)) (country_codes aux),
       product = find (\<lambda>p. code p = astype_str (col_k (chunk ! n))) (product_codes aux)\<rparr>"
    if "n < length chunk" for n
    using that by (simp add: eq)
  have none_c: "find (\<lambda>c. country_code c = x) (country_codes aux) = None"
    if "x \<notin> country_code ` set (country_codes aux)" for x
    using that by (auto simp: find_None_iff)
  have none_p: "find (\<lambda>p. code p = x) (product_codes aux) = None"
    if "x \<notin> code ` set (product_codes aux)" for x
    using that by (auto simp: find_None_iff)
  have some_c: "find (\<lambda>z. country_code z = x) (country_codes aux) = Some c"
    if "c \<in> set (country_codes aux)" "country_code c = x" for c x
    using find_unique_key[OF assms(1) that(1)] that(2) by simp
  have some_p: "find (\<lambda>z. code z = x) (product_codes aux) = Some p"
    if "p \<in> set (product_codes aux)" "code p = x" for p x
    using find_unique_key[OF assms(2) that(1)] that(2) by simp
  have allE: "list_all (\<lambda>x. x \<noteq> None) ?E \<longleftrightarrow>
      list_all (\<lambda>r. col_i r \<in> country_code ` set (country_codes aux)) chunk"
    by (rule all_matched_iff)
  have allI: "list_all (\<lambda>x. x \<noteq> None) ?I \<longleftrightarrow>
      list_all (\<lambda>r. col_j r \<in> country_code ` set (country_codes aux)) chunk"
    by (rule all_matched_iff)
  have ccE_none: "col_country_code (process_chunk aux chunk) ! n = None"
    if "n < length chunk" "col_i (chunk ! n) \<notin> country_code ` set (country_codes aux)" for n
  proof -
    have "?E ! n = None" using that by (simp add: none_c)
    then show ?thesis using that(1)
      by (simp only: col_country_code_def cols) (rule int64_column_None, simp_all)
  qed
  have ccI_none: "country_code_importer (process_chunk aux chunk) ! n = None"
    if "n < length chunk" "col_j (chunk ! n) \<notin> country_code ` set (country_codes aux)" for n
  proof -
    have "?I ! n = None" using that by (simp add: none_c)
    then show ?thesis using that(1)
      by (simp only: country_code_importer_def cols) (rule int64_column_None, simp_all)
  qed
  have ccE_some: "col_country_code (process_chunk aux chunk) ! n =
        Some (if list_all (\<lambda>r. col_i r \<in> country_code ` set (country_codes aux)) chunk
              then of_int (country_code c) else binary64 (of_int (country_code c)))"
    if "n < length chunk" "c \<in> set (country_codes aux)" "country_code c = col_i (chunk ! n)" for n c
  proof -
    have "?E ! n = Some (country_code c)" using that by (simp add: some_c)
    moreover have "n < length ?E" using that(1) by simp
    ultimately have "int64_column ?E ! n =
        Some (if list_all (\<lambda>x. x \<noteq> None) ?E then of_int (country_code c)
              else binary64 (of_int (country_code c)))"
      by (rule int64_column_Some[rotated])
    then show ?thesis by (simp only: col_country_code_def cols allE)
  qed
  have ccI_some: "country_code_importer (process_chunk aux chunk) ! n =
        Some (if list_all (\<lambda>r. col_j r \<in> country_code ` set (country_codes aux)) chunk
              then of_int (country_code c) else binary64 (of_int (country_code c)))"
    if "n < length chunk" "c \<in> set (country_codes aux)" "country_code c = col_j (chunk ! n)" for n c
  proof -
    have "?I ! n = Some (country_code c)" using that by (simp add: some_c)
    moreover have "n < length ?I" using that(1) by simp
    ultimately have "int64_column ?I ! n =
        Some (if list_all (\<lambda>x. x \<noteq> None) ?I then of_int (country_code c)
              else binary64 (of_int (country_code c)))"
      by (rule int64_column_Some[rotated])
    then show ?thesis by (simp only: country_code_importer_def cols allI)
  qed
  have "trade (process_chunk aux chunk ! n) =
            (chunk ! n)\<lparr>col_k := Some (astype_str (col_k (chunk ! n)))\<rparr>
        \<and> (col_k (chunk ! n) \<noteq> None \<longrightarrow> trade (process_chunk aux chunk ! n) = chunk ! n)
        \<and> (col_k (chunk ! n) = None \<longrightarrow>
             col_k (trade (process_chunk aux chunk ! n)) = Some ''nan'')"
    if "n < length chunk" for n
    by (auto simp: row[OF that] astype_str_def)
  moreover have "col_i (chunk ! n) \<notin> country_code ` set (country_codes aux) \<longrightarrow>
             exporter (process_chunk aux chunk ! n) = None
           \<and> col_country_code (process_chunk aux chunk) ! n = None
           \<and> exporter_name (process_chunk aux chunk ! n) = None
           \<and> exporter_iso2 (process_chunk aux chunk ! n) = None
           \<and> exporter_iso3 (process_chunk aux chunk ! n) = None"
    if "n < length chunk" for n
    using ccE_none[OF that]
    by (simp add: row[OF that] none_c exporter_name_def exporter_iso2_def exporter_iso3_def)
  moreover have "col_j (chunk ! n) \<notin> country_code ` set (country_codes aux) \<longrightarrow>
             importer (process_chunk aux chunk ! n) = None
           \<and> country_code_importer (process_chunk aux chunk) ! n = None
           \<and> importer_name (process_chunk aux chunk ! n) = None
           \<and> importer_iso2 (process_chunk aux chunk ! n) = None
           \<and> importer_iso3 (process_chunk aux chunk ! n) = None"
    if "n < length chunk" for n
    using ccI_none[OF that]
    by (simp add: row[OF that] none_c importer_name_def importer_iso2_def importer_iso3_def)
  moreover have "astype_str (col_k (chunk ! n)) \<notin> code ` set (product_codes aux) \<longrightarrow>
             product (process_chunk aux chunk ! n) = None
           \<and> col_code (process_chunk aux chunk ! n) = None
           \<and> col_description (process_chunk aux chunk ! n) = None"
    if "n < length chunk" for n
    by (simp add: row[OF that] none_p col_code_def col_description_def)
  moreover have "\<forall>c \<in> set (country_codes aux).
              (country_code c = col_i (chunk ! n) \<longrightarrow>
                 exporter_name (process_chunk aux chunk ! n) = country_name c
               \<and> exporter_iso2 (process_chunk aux chunk ! n) = country_iso2 c
               \<and> exporter_iso3 (process_chunk aux chunk ! n) = country_iso3 c
               \<and> col_country_code (process_chunk aux chunk) ! n =
                   Some (if list_all (\<lambda>r. col_i r \<in> country_code ` set (country_codes aux)) chunk
                         then of_int (country_code c) else binary64 (of_int (country_code c))))
            \<and> (country_code c = col_j (chunk ! n) \<longrightarrow>
                 importer_name (process_chunk aux chunk ! n) = country_name c
               \<and> importer_iso2 (process_chunk aux chunk ! n) = country_iso2 c
               \<and> importer_iso3 (process_chunk aux chunk ! n) = country_iso3 c
               \<and> country_code_importer (process_chunk aux chunk) ! n =
                   Some (if list_all (\<lambda>r. col_j r \<in> country_code ` set (country_codes aux)) chunk
                         then of_int (country_code c) else binary64 (of_int (country_code c))))"
    if "n < length chunk" for n
  proof (intro ballI conjI impI)
    fix c assume c: "c \<in> set (country_codes aux)" "country_code c = col_i (chunk ! n)"
    have e: "exporter (process_chunk aux chunk ! n) = Some c"
      using some_c[OF c] by (simp add: row[OF that])
    show "exporter_name (process_chunk aux chunk ! n) = country_name c"
      "exporter_iso2 (process_chunk aux chunk ! n) = country_iso2 c"
      "exporter_iso3 (process_chunk aux chunk ! n) = country_iso3 c"
      by (simp_all add: e exporter_name_def exporter_iso2_def exporter_iso3_def)
    show "col_country_code (process_chunk aux chunk) ! n =
                   Some (if list_all (\<lambda>r. col_i r \<in> country_code ` set (country_codes aux)) chunk
                         then of_int (country_code c) else binary64 (of_int (country_code c)))"
      by (rule ccE_some[OF that c])
  next
    fix c assume c: "c \<in> set (country_codes aux)" "country_code c = col_j (chunk ! n)"
    have e: "importer (process_chunk aux chunk ! n) = Some c"
      using some_c[OF c] by (simp add: row[OF that])
    show "importer_name (process_chunk aux chunk ! n) = country_name c"
      "importer_iso2 (process_chunk aux chunk ! n) = country_iso2 c"
      "importer_iso3 (process_chunk aux chunk ! n) = country_iso3 c"
      by (simp_all add: e importer_name_def importer_iso2_def importer_iso3_def)
    show "country_code_importer (process_chunk aux chunk) ! n =
                   Some (if list_all (\<lambda>r. col_j r \<in> country_code ` set (country_codes aux)) chunk
                         then of_int (country_code c) else binary64 (of_int (country_code c)))"
      by (rule ccI_some[OF that c])
  qed
  moreover have "\<forall>p \<in> set (product_codes aux).
              code p = astype_str (col_k (chunk ! n)) \<longrightarrow>
                col_code (process_chunk aux chunk ! n) = Some (code p)
              \<and> col_description (process_chunk aux chunk ! n) = description p"
    if "n < length chunk" for n
    using some_p by (auto simp: row[OF that] col_code_def col_description_def)
  ultimately show ?thesis using len by blast
qed

theorem join_keeps_every_row_witness:
  "distinct (map country_code (country_codes example_aux))
   \<and> distinct (map code (product_codes example_aux))
   \<and> (1::nat) < length example_chunk
   \<and> col_k (example_chunk ! 1) = None
   \<and> col_j (example_chunk ! 1) \<notin> country_code ` set (country_codes example_aux)
   \<and> astype_str (col_k (example_chunk ! 1)) \<notin> code ` set (product_codes example_aux)
   \<and> length (process_chunk example_aux example_chunk) = 2
   \<and> trade (process_chunk example_aux example_chunk ! 1) =
       \<lparr>col_t = 2020, col_i = 4, col_j = 999, col_k = Some ''nan'', col_q = None, col_v = Some 7\<rparr>
   \<and> importer (process_chunk example_aux example_chunk ! 1) = None
   \<and> country_code_importer (process_chunk example_aux example_chunk) ! 1 = None
   \<and> importer_name (process_chunk example_aux example_chunk ! 1) = None
   \<and> product (process_chunk example_aux example_chunk ! 1) = None
   \<and> col_description (process_chunk example_aux example_chunk ! 1) = None
   \<and> exporter_name (process_chunk example_aux example_chunk ! 1) = Some ''Afghanistan''
   \<and> col_country_code (process_chunk example_aux example_chunk) ! 1 = Some 4"
proof -
  let ?out = "process_chunk example_aux example_chunk"
  let ?af = "\<lparr>country_code = 4, country_name = Some ''Afghanistan'', country_iso2 = Some ''AF'',
              country_iso3 = Some ''AFG''\<rparr>"
  have d: "distinct (map country_code (country_codes example_aux))"
    "distinct (map code (product_codes example_aux))"
    by (simp_all add: example_aux_def example_countries_def example_products_def)
  have i: "(1::nat) < length example_chunk" "length example_chunk = 2"
    by (simp_all add: example_chunk_def)
  have r1: "example_chunk ! 1 =
      \<lparr>col_t = 2020, col_i = 4, col_j = 999, col_k = None, col_q = None, col_v = Some 7\<rparr>"
    by (simp add: example_chunk_def)
  have k: "col_k (example_chunk ! 1) = None" using r1 by simp
  have j: "col_j (example_chunk ! 1) \<notin> country_code ` set (country_codes example_aux)"
    using r1 by (simp add: example_aux_def example_countries_def)
  have p: "astype_str (col_k (example_chunk ! 1)) \<notin> code ` set (product_codes example_aux)"
    using r1 by (simp add: example_aux_def example_products_def astype_str_def)
  have af: "?af \<in> set (country_codes example_aux)" "country_code ?af = col_i (example_chunk ! 1)"
    using r1 by (simp_all add: example_aux_def example_countries_def)
  have all_i: "list_all (\<lambda>r. col_i r \<in> country_code ` set (country_codes example_aux)) example_chunk"
    by (simp add: example_chunk_def example_aux_def example_countries_def)
  note t = join_keeps_every_row[OF d, of example_chunk]
  from t have len: "length ?out = length example_chunk" by (rule conjunct1)
  from t have rows: "\<forall>n < length example_chunk.
          trade (?out ! n) = (example_chunk ! n)\<lparr>col_k := Some (astype_str (col_k (example_chunk ! n)))\<rparr>
        \<and> (col_k (example_chunk ! n) \<noteq> None \<longrightarrow> trade (?out ! n) = example_chunk ! n)
        \<and> (col_k (example_chunk ! n) = None \<longrightarrow> col_k (trade (?out ! n)) = Some ''nan'')
        \<and> (col_i (example_chunk ! n) \<notin> country_code ` set (country_codes example_aux) \<longrightarrow>
             exporter (?out ! n) = None
           \<and> col_country_code ?out ! n = None
           \<and> exporter_name (?out ! n) = None
           \<and> exporter_iso2 (?out ! n) = None
           \<and> exporter_iso3 (?out ! n) = None)
        \<and> (col_j (example_chunk ! n) \<notin> country_code ` set (country_codes example_aux) \<longrightarrow>
             importer (?out ! n) = None
           \<and> country_code_importer ?out ! n = None
           \<and> importer_name (?out ! n) = None
           \<and> importer_iso2 (?out ! n) = None
           \<and> importer_iso3 (?out ! n) = None)
        \<and> (astype_str (col_k (example_chunk ! n)) \<notin> code ` set (product_codes example_aux) \<longrightarrow>
             product (?out ! n) = None
           \<and> col_code (?out ! n) = None
           \<and> col_description (?out ! n) = None)
        \<and> (\<forall>c \<in> set (country_codes example_aux).
              (country_code c = col_i (example_chunk ! n) \<longrightarrow>
                 exporter_name (?out ! n) = country_name c
               \<and> exporter_iso2 (?out ! n) = country_iso2 c
               \<and> exporter_iso3 (?out ! n) = country_iso3 c
               \<and> col_country_code ?out ! n =
                   Some (if list_all (\<lambda>r. col_i r \<in> country_code ` set (country_codes example_aux)) example_chunk
                         then of_int (country_code c) else binary64 (of_int (country_code c))))
            \<and> (country_code c = col_j (example_chunk ! n) \<longrightarrow>
                 importer_name (?out ! n) = country_name c
               \<and> importer_iso2 (?out ! n) = country_iso2 c
               \<and> importer_iso3 (?out ! n) = country_iso3 c
               \<and> country_code_importer ?out ! n =
                   Some (if list_all (\<lambda>r. col_j r \<in> country_code ` set (country_codes example_aux)) example_chunk
                         then of_int (country_code c) else binary64 (of_int (country_code c)))))
        \<and> (\<forall>p \<in> set (product_codes example_aux).
              code p = astype_str (col_k (example_chunk ! n)) \<longrightarrow>
                col_code (?out ! n) = Some (code p)
              \<and> col_description (?out ! n) = description p)"
    by (rule conjunct2)
  note row1 = rows[rule_format, OF i(1)]
  have c1: "length ?out = 2" using len i(2) by simp
  have c2: "trade (?out ! 1) =
       \<lparr>col_t = 2020, col_i = 4, col_j = 999, col_k = Some ''nan'', col_q = None, col_v = Some 7\<rparr>"
    using row1[THEN conjunct1] r1 by (simp add: astype_str_def)
  have c3: "importer (?out ! 1) = None" "country_code_importer ?out ! 1 = None"
    "importer_name (?out ! 1) = None"
    using row1 j by blast+
  have c4: "product (?out ! 1) = None" "col_description (?out ! 1) = None"
    using row1 p by blast+
  have m: "exporter_name (?out ! 1) = country_name ?af
      \<and> col_country_code ?out ! 1 =
          Some (if list_all (\<lambda>r. col_i r \<in> country_code ` set (country_codes example_aux)) example_chunk
                then of_int (country_code ?af) else binary64 (of_int (country_code ?af)))"
    using row1 af by blast
  have c5: "exporter_name (?out ! 1) = Some ''Afghanistan''" using m by simp
  have c6: "col_country_code ?out ! 1 = Some 4" using m all_i by simp
  show ?thesis using d i(1) k j p c1 c2 c3 c4 c5 c6 by (intro conjI)
qed

section \<open>The sampler\<close>

text \<open>
  C5. The claim: with sampling enabled and a fraction in \<open>(0, 1]\<close>, each group contributes
  \<open>round(f \<times> n)\<close> of its own rows, no row is new, and the selection is deterministic
  given a fixed seed. The code has no seed: \<^verbatim>\<open>sample\<close> is called without
  \<^verbatim>\<open>random_state\<close> and \<^verbatim>\<open>DataProcessor\<close> takes none, so the rows selected are those the
  process-global generator happens to draw. With the same configuration and the same
  batch of two rows in one group, a generator that draws the first position selects the
  first row and one that draws the last position selects the second.
\<close>

theorem selection_depends_on_the_generator:
  "draws_without_replacement take_first \<and> draws_without_replacement take_last \<and>
   stratified_sample sampling_config take_first 0 same_group_pair =
     Inr ([example_row 2020 4 8 ''010121'' 10], 1) \<and>
   stratified_sample sampling_config take_last 0 same_group_pair =
     Inr ([example_row 2020 4 8 ''010121'' 20], 1)"
proof -
  have g: "groupby same_group_pair = [same_group_pair]"
    by (simp add: groupby_def same_group_pair_def group_key_def example_row_def)
  have "length same_group_pair = 2" by (simp add: same_group_pair_def)
  then have s: "sample_size (1 / 2) (length same_group_pair) = 1"
    using example_sample_sizes(3) by (simp only:)
  have "stratified_sample sampling_config take_first 0 same_group_pair =
     Inr ([example_row 2020 4 8 ''010121'' 10], 1)"
    by (simp add: stratified_sample_def sampling_config_def g df_sample_def s take_first_def)
       (simp add: same_group_pair_def)
  moreover have "stratified_sample sampling_config take_last 0 same_group_pair =
     Inr ([example_row 2020 4 8 ''010121'' 20], 1)"
    by (simp add: stratified_sample_def sampling_config_def g df_sample_def s take_last_def)
       (simp add: same_group_pair_def)
  ultimately show ?thesis using take_first_draws take_last_draws by simp
qed

text \<open>
  C5, as the code has it. For a generator that draws without replacement, sampling
  enabled, a fraction in \<open>(0, 1]\<close> and a batch of fewer than \<open>2 ^ 53\<close> rows, the sampler
  returns; each group \<open>(t, i, j)\<close> of size \<open>n\<close> contributes exactly
  \<open>sample_size f n\<close> rows (Python's \<^verbatim>\<open>round\<close> of the float product, 5 for one half of
  ten), all of them rows of that group, and the result as a whole is a sub-multiset of
  the batch.
\<close>

theorem stratified_sample_draws_from_each_group:
  assumes "draws_without_replacement choice" and "use_sample self"
    and "0 < sample_frac self" and "sample_frac self \<le> 1" and "length df < 2 ^ 53"
  shows "\<exists>out g'. stratified_sample self choice g df = Inr (out, g')
    \<and> (\<forall>key. length (filter (\<lambda>r. group_key r = key) out) =
               nat (sample_size (sample_frac self) (length (filter (\<lambda>r. group_key r = key) df))))
    \<and> (\<forall>key. mset (filter (\<lambda>r. group_key r = key) out) \<subseteq>#
               mset (filter (\<lambda>r. group_key r = key) df))
    \<and> mset out \<subseteq># mset df"
proof -
  let ?ks = "sort (remdups (map group_key df))"
  have f0: "0 \<le> sample_frac self" using assms(3) by simp
  from groupby_apply_groups[OF assms(1) f0 assms(4,5) groupby_keys(1), of g group_key]
  obtain out g' where
    r: "groupby_apply choice (sample_frac self) g (map (\<lambda>k. filter (\<lambda>r. group_key r = k) df) ?ks) = Inr (out, g')"
    and sub: "mset out \<subseteq># mset (filter (\<lambda>r. group_key r \<in> set ?ks) df)"
    and cnt: "\<forall>k. length (filter (\<lambda>r. group_key r = k) out) =
        (if k \<in> set ?ks then nat (sample_size (sample_frac self) (length (filter (\<lambda>r. group_key r = k) df))) else 0)"
    by blast
  have res: "stratified_sample self choice g df = Inr (out, g')"
    using r assms(2) by (simp add: stratified_sample_def groupby_def)
  have "mset (filter (\<lambda>r. group_key r \<in> set ?ks) df) \<subseteq># mset df" by simp
  with sub have sub': "mset out \<subseteq># mset df" by (rule subset_mset.order_trans)
  have cnt': "length (filter (\<lambda>r. group_key r = key) out) =
      nat (sample_size (sample_frac self) (length (filter (\<lambda>r. group_key r = key) df)))" for key
  proof (cases "key \<in> set ?ks")
    case True
    then show ?thesis using cnt[rule_format, of key] by (simp only: if_True)
  next
    case False
    then have "filter (\<lambda>r. group_key r = key) df = []" by (auto simp: filter_empty_conv)
    then show ?thesis using cnt[rule_format, of key] False
      by (simp only: if_False list.size sample_size_zero)
  qed
  have grp: "mset (filter (\<lambda>r. group_key r = key) out) \<subseteq># mset (filter (\<lambda>r. group_key r = key) df)" for key
    using multiset_filter_mono[OF sub'] by simp
  show ?thesis using res cnt' grp sub' by blast
qed

theorem stratified_sample_draws_from_each_group_witness:
  "draws_without_replacement take_first \<and> use_sample sampling_config
   \<and> 0 < sample_frac sampling_config \<and> sample_frac sampling_config \<le> 1
   \<and> length ten_and_one < 2 ^ 53
   \<and> (\<exists>out g'. stratified_sample sampling_config take_first 0 ten_and_one = Inr (out, g')
        \<and> length (filter (\<lambda>r. group_key r = (2020, 4, 8)) out) = 5
        \<and> length (filter (\<lambda>r. group_key r = (2021, 4, 8)) out) = 0
        \<and> mset out \<subseteq># mset ten_and_one)"
proof -
  have u: "use_sample sampling_config" by (simp add: sampling_config_def)
  have f: "0 < sample_frac sampling_config" "sample_frac sampling_config \<le> 1"
    "sample_frac sampling_config = 1 / 2"
    by (simp_all add: sampling_config_def)
  have l: "length ten_and_one < 2 ^ 53" by (simp add: ten_and_one_def)
  have n10: "length (filter (\<lambda>r. group_key r = (2020, 4, 8)) ten_and_one) = 10"
    by (simp add: ten_and_one_def group_key_def example_row_def)
  have n1: "length (filter (\<lambda>r. group_key r = (2021, 4, 8)) ten_and_one) = 1"
    by (simp add: ten_and_one_def group_key_def example_row_def)
  from stratified_sample_draws_from_each_group[OF take_first_draws u f(1,2) l, of 0]
  obtain out g' where
    r: "stratified_sample sampling_config take_first 0 ten_and_one = Inr (out, g')"
    and c: "\<forall>key. length (filter (\<lambda>r. group_key r = key) out) =
        nat (sample_size (sample_frac sampling_config)
               (length (filter (\<lambda>r. group_key r = key) ten_and_one)))"
    and s: "mset out \<subseteq># mset ten_and_one"
    by blast
  have "length (filter (\<lambda>r. group_key r = (2020, 4, 8)) out) = 5"
    using c[rule_format, of "(2020, 4, 8)"] by (simp add: n10 f(3) example_sample_sizes)
  moreover have "length (filter (\<lambda>r. group_key r = (2021, 4, 8)) out) = 0"
    using c[rule_format, of "(2021, 4, 8)"] by (simp only: n1 f(3) example_sample_sizes nat_0)
  ultimately show ?thesis using take_first_draws u f(1,2) l r s by blast
qed

text \<open>
  C6. With sampling disabled the sampler returns its input as it is, and draws nothing.
\<close>

theorem sampling_disabled_is_identity:
  "\<not> use_sample self \<Longrightarrow> stratified_sample self choice g df = Inr (df, g)"
  by (simp add: stratified_sample_def)

theorem sampling_disabled_is_identity_witness:
  "\<not> use_sample (example_config ''csv'') \<and>
   stratified_sample (example_config ''csv'') take_first 0 two_way_trade = Inr (two_way_trade, 0)"
proof -
  have "\<not> use_sample (example_config ''csv'')" by (simp add: example_config_def)
  then show ?thesis using sampling_disabled_is_identity[of "example_config ''csv''" take_first 0 two_way_trade]
    by simp
qed

section \<open>The file loop\<close>

text \<open>
  C8. In the loop of \<^verbatim>\<open>process_file\<close> each chunk goes through \<^verbatim>\<open>fillna\<close> first, and
  it is the filled chunk that \<^verbatim>\<open>process_chunk\<close> joins. Filling keeps the rows, puts 0
  for a null \<^verbatim>\<open>q\<close> or \<^verbatim>\<open>v\<close> and keeps any other value of them, and leaves the columns
  \<^verbatim>\<open>t\<close>, \<^verbatim>\<open>i\<close>, \<^verbatim>\<open>j\<close>, \<^verbatim>\<open>k\<close> as they are (a null \<^verbatim>\<open>k\<close> stays null); so no row
  that leaves the join has a null \<^verbatim>\<open>q\<close> or \<^verbatim>\<open>v\<close>.
\<close>

theorem nulls_imputed_before_join:
  "process_chunks self aux choice g (Inr chunk # chunks) processed_chunks =
     (case stratified_sample self choice g (process_chunk aux (fillna_qv chunk)) of
        Inl e \<Rightarrow> Inl e
      | Inr (sampled_chunk, g') \<Rightarrow>
          process_chunks self aux choice g' chunks (processed_chunks @ [sampled_chunk]))
   \<and> length (fillna_qv chunk) = length chunk
   \<and> (\<forall>n < length chunk.
         col_q (fillna_qv chunk ! n) = Some (case col_q (chunk ! n) of None \<Rightarrow> 0 | Some x \<Rightarrow> x)
       \<and> col_v (fillna_qv chunk ! n) = Some (case col_v (chunk ! n) of None \<Rightarrow> 0 | Some x \<Rightarrow> x)
       \<and> col_t (fillna_qv chunk ! n) = col_t (chunk ! n)
       \<and> col_i (fillna_qv chunk ! n) = col_i (chunk ! n)
       \<and> col_j (fillna_qv chunk ! n) = col_j (chunk ! n)
       \<and> col_k (fillna_qv chunk ! n) = col_k (chunk ! n))
   \<and> (\<forall>out \<in> set (process_chunk aux (fillna_qv chunk)).
         col_q (trade out) \<noteq> None \<and> col_v (trade out) \<noteq> None)"
proof -
  have "col_q (trade out) \<noteq> None \<and> col_v (trade out) \<noteq> None"
    if "out \<in> set (process_chunk aux (fillna_qv chunk))" for out
    using process_chunk_trade[OF that] by (auto simp: fillna_qv_def)
  then show ?thesis by (simp add: fillna_qv_def)
qed

theorem nulls_imputed_before_join_witness:
  "(1::nat) < length example_chunk
   \<and> col_q (example_chunk ! 1) = None \<and> col_k (example_chunk ! 1) = None
   \<and> col_q (fillna_qv example_chunk ! 1) = Some 0
   \<and> col_v (fillna_qv example_chunk ! 1) = Some 7
   \<and> col_k (fillna_qv example_chunk ! 1) = None
   \<and> process_chunk example_aux (fillna_qv example_chunk) \<noteq> []
   \<and> col_v (trade (hd (process_chunk example_aux (fillna_qv example_chunk)))) \<noteq> None"
proof -
  have i: "(1::nat) < length example_chunk" by (simp add: example_chunk_def)
  have q: "col_q (example_chunk ! 1) = None" "col_v (example_chunk ! 1) = Some 7"
     "col_k (example_chunk ! 1) = None"
    by (simp_all add: example_chunk_def)
  have ne: "process_chunk example_aux (fillna_qv example_chunk) \<noteq> []"
    by (simp add: process_chunk_def merge_left_def example_chunk_def fillna_qv_def Let_def
        split: list.splits)
  then have m: "hd (process_chunk example_aux (fillna_qv example_chunk))
      \<in> set (process_chunk example_aux (fillna_qv example_chunk))" by simp
  note t = nulls_imputed_before_join[of sampling_config example_aux take_first 0 example_chunk "[]" "[]"]
  from t have t3: "\<forall>n < length example_chunk.
         col_q (fillna_qv example_chunk ! n) = Some (case col_q (example_chunk ! n) of None \<Rightarrow> 0 | Some x \<Rightarrow> x)
       \<and> col_v (fillna_qv example_chunk ! n) = Some (case col_v (example_chunk ! n) of None \<Rightarrow> 0 | Some x \<Rightarrow> x)
       \<and> col_t (fillna_qv example_chunk ! n) = col_t (example_chunk ! n)
       \<and> col_i (fillna_qv example_chunk ! n) = col_i (example_chunk ! n)
       \<and> col_j (fillna_qv example_chunk ! n) = col_j (example_chunk ! n)
       \<and> col_k (fillna_qv example_chunk ! n) = col_k (example_chunk ! n)"
    by (elim conjE)
  from t have t4: "\<forall>out \<in> set (process_chunk example_aux (fillna_qv example_chunk)).
         col_q (trade out) \<noteq> None \<and> col_v (trade out) \<noteq> None"
    by (elim conjE)
  have "col_q (fillna_qv example_chunk ! 1) = Some 0" "col_v (fillna_qv example_chunk ! 1) = Some 7"
    "col_k (fillna_qv example_chunk ! 1) = None"
    using t3[rule_format, OF i] q by simp_all
  moreover have "col_v (trade (hd (process_chunk example_aux (fillna_qv example_chunk)))) \<noteq> None"
    using t4 m by blast
  ultimately show ?thesis using i q ne by blast
qed

end
